theory Spec2Isabelle
  imports Main
begin

section \<open>JavaScript values, objects, Map and Set\<close>

text \<open>
  The real-time service (services/websocketService.js) keeps two module-level JavaScript
  \<^verbatim>\<open>Map\<close>s and builds plain objects as event payloads. A \<^verbatim>\<open>Map\<close>, a \<^verbatim>\<open>Set\<close> and
  the own properties of an object are all insertion ordered and hold a key once, so they
  are association lists and lists here, with the operations written out.
  \<^verbatim>\<open>JIso t\<close> stands for the string \<^verbatim>\<open>new Date().toISOString()\<close> returns at instant
  \<open>t\<close> (milliseconds of the clock); the text of that string is the library's business.
\<close>

datatype jsval =
    JUndefined
  | JNull
  | JBool bool
  | JNum int
  | JStr string
  | JIso nat
  | JArr "jsval list"
  | JObj "(string \<times> jsval) list"

type_synonym jsobj = "(string \<times> jsval) list"

text \<open>\<^verbatim>\<open>m.set(k, v)\<close>, and the assignment of a property of an object: an existing key keeps its
  place and takes the new value, a new key goes to the end.\<close>

fun Map_set :: "'k \<Rightarrow> 'v \<Rightarrow> ('k \<times> 'v) list \<Rightarrow> ('k \<times> 'v) list" where
  "Map_set k v [] = [(k, v)]"
| "Map_set k v ((k', v') # m) = (if k' = k then (k, v) # m else (k', v') # Map_set k v m)"

definition Map_get :: "'k \<Rightarrow> ('k \<times> 'v) list \<Rightarrow> 'v option" where
  "Map_get k m = map_of m k"

definition Map_has :: "'k \<Rightarrow> ('k \<times> 'v) list \<Rightarrow> bool" where
  "Map_has k m = (Map_get k m \<noteq> None)"

definition Map_delete :: "'k \<Rightarrow> ('k \<times> 'v) list \<Rightarrow> ('k \<times> 'v) list" where
  "Map_delete k m = filter (\<lambda>e. fst e \<noteq> k) m"

text \<open>\<^verbatim>\<open>s.add(x)\<close> and \<^verbatim>\<open>s.delete(x)\<close> of a Set; \<^verbatim>\<open>s.size\<close> is the length.\<close>

definition Set_add :: "'a \<Rightarrow> 'a list \<Rightarrow> 'a list" where
  "Set_add x s = (if x \<in> set s then s else s @ [x])"

definition Set_delete :: "'a \<Rightarrow> 'a list \<Rightarrow> 'a list" where
  "Set_delete x s = filter (\<lambda>y. y \<noteq> x) s"

text \<open>An object literal \<^verbatim>\<open>{ k1: v1, ...spread, kn: vn }\<close>: the properties are assigned from
  left to right, so a later key overrides an earlier one.\<close>

definition obj_lit :: "(string \<times> jsval) list \<Rightarrow> jsobj" where
  "obj_lit kvs = fold (\<lambda>kv ob. Map_set (fst kv) (snd kv) ob) kvs []"

text \<open>\<^verbatim>\<open>!v\<close> for a value that is either missing or a string.\<close>

definition falsy :: "string option \<Rightarrow> bool" where
  "falsy v = (case v of None \<Rightarrow> True | Some s \<Rightarrow> s = [])"

text \<open>\<^verbatim>\<open>s.split(c)\<close> for a one-character separator.\<close>

fun js_split :: "char \<Rightarrow> string \<Rightarrow> string list" where
  "js_split c [] = [[]]"
| "js_split c (x # xs) =
     (if x = c then [] # js_split c xs
      else (case js_split c xs of [] \<Rightarrow> [[x]] | w # ws \<Rightarrow> (x # w) # ws))"

text \<open>\<^verbatim>\<open>xs[i]\<close>: \<^verbatim>\<open>undefined\<close> out of range.\<close>

definition at_index :: "'a list \<Rightarrow> nat \<Rightarrow> 'a option" where
  "at_index xs i = (if i < length xs then Some (xs ! i) else None)"

section \<open>Sockets, events and the state of the service\<close>

text \<open>The fields the authentication middleware stores on a socket (lines 42-45), with the
  id socket.io gave it.\<close>

record socket =
  sid :: string
  userId :: string
  userRole :: string
  userEmail :: string
  userName :: string

text \<open>A row of the \<^verbatim>\<open>users\<close> table, as selected at line 34.\<close>

record user_row =
  user_id :: string
  user_name :: string
  user_email :: string
  user_role :: string

text \<open>The value stored in \<^verbatim>\<open>connectedUsers\<close> (lines 59-64); the \<^verbatim>\<open>socket\<close> reference of
  the entry is given by its \<^verbatim>\<open>socketId\<close>.\<close>

record conn_info =
  socketId :: string
  connectedAt :: nat
  role :: string

text \<open>What \<^verbatim>\<open>emit(ev, args)\<close> sends.\<close>

record event =
  ev :: string
  args :: jsobj

text \<open>
  The state: the module variables \<^verbatim>\<open>io\<close> (set or not), \<^verbatim>\<open>connectedUsers\<close> and
  \<^verbatim>\<open>roomSubscriptions\<close> of the source, and what the source reaches through the socket.io
  server: the live sockets of the namespace, the rooms of its adapter (room to the Set of
  socket ids, consulted by every \<^verbatim>\<open>io.to(room).emit\<close>) and the packets sent, as pairs of
  the receiving socket id and the event in emission order. \<open>users\<close> is the \<^verbatim>\<open>users\<close> table
  of the external store.
\<close>

record server_state =
  io :: bool
  connectedUsers :: "(string \<times> conn_info) list"
  roomSubscriptions :: "(string \<times> string list) list"
  sockets :: "(string \<times> socket) list"
  rooms :: "(string \<times> string list) list"
  outbox :: "(string \<times> event) list"
  users :: "user_row list"

definition init_state :: server_state where
  "init_state = \<lparr>io = False, connectedUsers = [], roomSubscriptions = [], sockets = [],
     rooms = [], outbox = [], users = []\<rparr>"

subsection \<open>The socket.io operations the source calls\<close>

text \<open>
  These five are the library's documented behaviour, not code of the repository:
  \<^verbatim>\<open>socket.join(room)\<close> adds the socket's id to the room's Set, creating the room;
  \<^verbatim>\<open>socket.leave(room)\<close> removes it and drops a room left empty; \<^verbatim>\<open>socket.emit\<close> sends
  to the one socket, \<^verbatim>\<open>io.to(room).emit\<close> to every socket of the room, \<^verbatim>\<open>io.emit\<close> to
  every socket of the namespace.
\<close>

definition Set_join :: "string \<Rightarrow> string \<Rightarrow> (string \<times> string list) list \<Rightarrow> (string \<times> string list) list" where
  "Set_join room x m =
     (case Map_get room m of
        None \<Rightarrow> Map_set room [x] m
      | Some s \<Rightarrow> Map_set room (Set_add x s) m)"

definition Set_leave :: "string \<Rightarrow> string \<Rightarrow> (string \<times> string list) list \<Rightarrow> (string \<times> string list) list" where
  "Set_leave room x m =
     (case Map_get room m of
        None \<Rightarrow> m
      | Some s \<Rightarrow>
          (let s' = Set_delete x s in
           if length s' = 0 then Map_delete room m else Map_set room s' m))"

definition socket_join :: "socket \<Rightarrow> string \<Rightarrow> server_state \<Rightarrow> server_state" where
  "socket_join socket room st = st\<lparr>rooms := Set_join room (sid socket) (rooms st)\<rparr>"

definition socket_leave :: "socket \<Rightarrow> string \<Rightarrow> server_state \<Rightarrow> server_state" where
  "socket_leave socket room st = st\<lparr>rooms := Set_leave room (sid socket) (rooms st)\<rparr>"

definition socket_emit :: "socket \<Rightarrow> event \<Rightarrow> server_state \<Rightarrow> server_state" where
  "socket_emit socket e st = st\<lparr>outbox := outbox st @ [(sid socket, e)]\<rparr>"

definition subscribers_of :: "server_state \<Rightarrow> string \<Rightarrow> string list" where
  "subscribers_of st room = (case Map_get room (rooms st) of None \<Rightarrow> [] | Some s \<Rightarrow> s)"

definition io_to_emit :: "string \<Rightarrow> event \<Rightarrow> server_state \<Rightarrow> server_state" where
  "io_to_emit room e st = st\<lparr>outbox := outbox st @ map (\<lambda>i. (i, e)) (subscribers_of st room)\<rparr>"

definition io_emit :: "event \<Rightarrow> server_state \<Rightarrow> server_state" where
  "io_emit e st = st\<lparr>outbox := outbox st @ map (\<lambda>i. (i, e)) (map fst (sockets st))\<rparr>"

section \<open>The service\<close>

subsection \<open>Authentication middleware (lines 20-52)\<close>

text \<open>
  The handshake carries \<^verbatim>\<open>auth.token\<close> and the \<^verbatim>\<open>authorization\<close> header, either of which
  may be missing. \<^verbatim>\<open>jwt.verify\<close> is the library's: \<open>verify token\<close> is \<open>None\<close> where it
  throws, and otherwise the \<^verbatim>\<open>id\<close> of the decoded payload, which the payload may lack.
  \<^verbatim>\<open>.eq('id', i).single()\<close> answers with the row when exactly one row has that id and with
  an error otherwise; the query itself does not fail here. Each rejection of the source
  (\<^verbatim>\<open>next(new Error(...))\<close>) is an \<open>auth_error\<close>.
\<close>

record handshake =
  auth_token :: "string option"
  authorization :: "string option"

datatype auth_error = NoTokenProvided | UserNotFound | InvalidToken

definition handshake_token :: "handshake \<Rightarrow> string option" where
  "handshake_token hs =
     (if \<not> falsy (auth_token hs) then auth_token hs
      else (case authorization hs of
              None \<Rightarrow> None
            | Some h \<Rightarrow> at_index (js_split CHR '' '' h) 1))"

definition single_user :: "string \<Rightarrow> user_row list \<Rightarrow> user_row option" where
  "single_user i tbl = (case filter (\<lambda>u. user_id u = i) tbl of [u] \<Rightarrow> Some u | _ \<Rightarrow> None)"

definition authenticate ::
  "(string \<Rightarrow> string option option) \<Rightarrow> server_state \<Rightarrow> string \<Rightarrow> handshake \<Rightarrow> auth_error + socket" where
  "authenticate verify st i hs =
     (let token = handshake_token hs in
      if falsy token then Inl NoTokenProvided
      else (case token of
          None \<Rightarrow> Inl NoTokenProvided
        | Some tok \<Rightarrow>
           (case verify tok of
              None \<Rightarrow> Inl InvalidToken
            | Some decoded_id \<Rightarrow>
               (case (case decoded_id of None \<Rightarrow> None | Some d \<Rightarrow> single_user d (users st)) of
                  None \<Rightarrow> Inl UserNotFound
                | Some user \<Rightarrow>
                    Inr \<lparr>sid = i, userId = user_id user, userRole = user_role user,
                         userEmail = user_email user, userName = user_name user\<rparr>))))"

subsection \<open>Connection handler (lines 55-120)\<close>

text \<open>\<open>now\<close> is the reading of the clock while the handler runs.\<close>

definition on_connection :: "nat \<Rightarrow> socket \<Rightarrow> server_state \<Rightarrow> server_state" where
  "on_connection now socket st =
     (let st1 = st\<lparr>connectedUsers :=
                    Map_set (userId socket)
                      \<lparr>socketId = sid socket, connectedAt = now, role = userRole socket\<rparr>
                      (connectedUsers st)\<rparr>;
          st2 = socket_join socket (''user:'' @ userId socket) st1;
          st3 = (if userRole socket = ''admin'' then socket_join socket ''admin'' st2 else st2)
      in socket_emit socket
           \<lparr>ev = ''connected'',
            args = obj_lit [(''message'', JStr ''Connected to real-time updates''),
                            (''userId'', JStr (userId socket)),
                            (''timestamp'', JIso now)]\<rparr> st3)"

subsection \<open>Subscribe and unsubscribe (lines 126-173)\<close>

text \<open>The payload of a \<^verbatim>\<open>subscribe\<close> or \<^verbatim>\<open>unsubscribe\<close> message is an object whose
  \<^verbatim>\<open>room\<close> and \<^verbatim>\<open>type\<close> are strings or missing.\<close>

record sub_data =
  room :: "string option"
  type :: "string option"

definition error_event :: "string \<Rightarrow> event" where
  "error_event msg = \<lparr>ev = ''error'', args = obj_lit [(''message'', JStr msg)]\<rparr>"

definition handleRoomSubscription :: "nat \<Rightarrow> socket \<Rightarrow> sub_data \<Rightarrow> server_state \<Rightarrow> server_state" where
  "handleRoomSubscription now socket data st =
     (case (room data, type data) of
        (Some r, Some t) \<Rightarrow>
          if r = [] \<or> t = [] then
            socket_emit socket (error_event ''Room and type are required for subscription'') st
          else if t = ''admin'' \<and> userRole socket \<noteq> ''admin'' then
            socket_emit socket (error_event ''Admin privileges required'') st
          else
            (let st1 = socket_join socket r st;
                 subs = (if \<not> Map_has r (roomSubscriptions st1)
                         then Map_set r [] (roomSubscriptions st1)
                         else roomSubscriptions st1);
                 subs' = (case Map_get r subs of
                            None \<Rightarrow> subs
                          | Some s \<Rightarrow> Map_set r (Set_add (userId socket) s) subs);
                 st2 = st1\<lparr>roomSubscriptions := subs'\<rparr>
             in socket_emit socket
                  \<lparr>ev = ''subscribed'',
                   args = obj_lit [(''room'', JStr r), (''type'', JStr t),
                                   (''timestamp'', JIso now)]\<rparr> st2)
      | _ \<Rightarrow> socket_emit socket (error_event ''Room and type are required for subscription'') st)"

definition handleRoomUnsubscription :: "nat \<Rightarrow> socket \<Rightarrow> sub_data \<Rightarrow> server_state \<Rightarrow> server_state" where
  "handleRoomUnsubscription now socket data st =
     (case room data of
        None \<Rightarrow> socket_emit socket (error_event ''Room is required for unsubscription'') st
      | Some r \<Rightarrow>
          if r = [] then
            socket_emit socket (error_event ''Room is required for unsubscription'') st
          else
            (let st1 = socket_leave socket r st;
                 subs = roomSubscriptions st1;
                 subs' = (case Map_get r subs of
                            None \<Rightarrow> subs
                          | Some s \<Rightarrow>
                              (let s' = Set_delete (userId socket) s in
                               if length s' = 0 then Map_delete r subs else Map_set r s' subs));
                 st2 = st1\<lparr>roomSubscriptions := subs'\<rparr>
             in socket_emit socket
                  \<lparr>ev = ''unsubscribed'',
                   args = obj_lit [(''room'', JStr r), (''timestamp'', JIso now)]\<rparr> st2))"

subsection \<open>Requests (lines 176-297)\<close>

text \<open>
  The answer of the external store to the one query of a request: the \<^verbatim>\<open>data\<close> it
  returns and whether \<^verbatim>\<open>error\<close> is set, or an exception. A request whose payload is
  missing throws inside the \<^verbatim>\<open>try\<close> when the payload is destructured.
\<close>

datatype db_reply = Reply jsval bool | Throws

definition js_not :: "jsval \<Rightarrow> bool" where
  "js_not v = (case v of JUndefined \<Rightarrow> True | JNull \<Rightarrow> True | JBool b \<Rightarrow> \<not> b
                 | JNum n \<Rightarrow> n = 0 | JStr s \<Rightarrow> s = [] | _ \<Rightarrow> False)"

definition handleParkingAvailabilityRequest ::
  "nat \<Rightarrow> socket \<Rightarrow> jsobj option \<Rightarrow> db_reply \<Rightarrow> server_state \<Rightarrow> server_state" where
  "handleParkingAvailabilityRequest now socket data reply st =
     (case data of
        None \<Rightarrow> socket_emit socket (error_event ''Internal server error'') st
      | Some d \<Rightarrow>
         (case reply of
            Throws \<Rightarrow> socket_emit socket (error_event ''Internal server error'') st
          | Reply parkingLots error \<Rightarrow>
              if error then
                socket_emit socket (error_event ''Failed to fetch parking availability'') st
              else
                socket_emit socket
                  \<lparr>ev = ''parking_availability'',
                   args = obj_lit [(''parking_lots'', parkingLots),
                                   (''timestamp'', JIso now)]\<rparr> st))"

definition handleBookingStatusRequest ::
  "nat \<Rightarrow> socket \<Rightarrow> jsobj option \<Rightarrow> db_reply \<Rightarrow> server_state \<Rightarrow> server_state" where
  "handleBookingStatusRequest now socket data reply st =
     (case data of
        None \<Rightarrow> socket_emit socket (error_event ''Internal server error'') st
      | Some d \<Rightarrow>
         (case reply of
            Throws \<Rightarrow> socket_emit socket (error_event ''Internal server error'') st
          | Reply booking error \<Rightarrow>
              if error \<or> js_not booking then
                socket_emit socket (error_event ''Booking not found'') st
              else
                socket_emit socket
                  \<lparr>ev = ''booking_status'',
                   args = obj_lit [(''booking'', booking), (''timestamp'', JIso now)]\<rparr> st))"

text \<open>
  \<^verbatim>\<open>getLiveStatistics\<close>: the three aggregates read from the store (active bookings, today's
  revenue, available spaces) are given, or \<open>None\<close> when a query throws and the function
  returns \<^verbatim>\<open>{}\<close>; the two counts over \<^verbatim>\<open>connectedUsers\<close> are computed. Since it catches
  its own exceptions, the \<^verbatim>\<open>catch\<close> of \<^verbatim>\<open>handleLiveStatsRequest\<close> is never entered.
\<close>

definition getLiveStatistics :: "(jsval \<times> jsval \<times> jsval) option \<Rightarrow> server_state \<Rightarrow> jsobj" where
  "getLiveStatistics q st =
     (case q of
        None \<Rightarrow> obj_lit []
      | Some (activeBookings, todayRevenue, totalSpaces) \<Rightarrow>
          obj_lit [(''active_bookings'', activeBookings),
                   (''today_revenue'', todayRevenue),
                   (''available_spaces'', totalSpaces),
                   (''online_users'', JNum (int (length (connectedUsers st)))),
                   (''connected_admins'',
                      JNum (int (length (filter (\<lambda>u. role u = ''admin'')
                                           (map snd (connectedUsers st))))))])"

definition handleLiveStatsRequest ::
  "nat \<Rightarrow> socket \<Rightarrow> (jsval \<times> jsval \<times> jsval) option \<Rightarrow> server_state \<Rightarrow> server_state" where
  "handleLiveStatsRequest now socket q st =
     socket_emit socket
       \<lparr>ev = ''live_stats'',
        args = obj_lit [(''stats'', JObj (getLiveStatistics q st)),
                        (''timestamp'', JIso now)]\<rparr> st"

text \<open>The listener of \<^verbatim>\<open>get_live_stats\<close> (lines 94-98).\<close>

definition on_get_live_stats ::
  "nat \<Rightarrow> socket \<Rightarrow> (jsval \<times> jsval \<times> jsval) option \<Rightarrow> server_state \<Rightarrow> server_state" where
  "on_get_live_stats now socket q st =
     (if userRole socket = ''admin'' then handleLiveStatsRequest now socket q st else st)"

subsection \<open>Disconnect handler (lines 101-112)\<close>

text \<open>The loop over \<^verbatim>\<open>roomSubscriptions.entries()\<close>, entry by entry in the order of the Map.\<close>

fun cleanup_rooms :: "string \<Rightarrow> (string \<times> string list) list \<Rightarrow> (string \<times> string list) list" where
  "cleanup_rooms u [] = []"
| "cleanup_rooms u ((r, subscribers) # rest) =
     (let subscribers' = Set_delete u subscribers in
      if length subscribers' = 0 then cleanup_rooms u rest
      else (r, subscribers') # cleanup_rooms u rest)"

definition on_disconnect :: "socket \<Rightarrow> server_state \<Rightarrow> server_state" where
  "on_disconnect socket st =
     st\<lparr>connectedUsers := Map_delete (userId socket) (connectedUsers st),
        roomSubscriptions := cleanup_rooms (userId socket) (roomSubscriptions st)\<rparr>"

subsection \<open>Broadcast functions (lines 302-370)\<close>

text \<open>Ids that are spliced into a room name are strings; the other ids are payload only.\<close>

definition broadcastParkingUpdate :: "nat \<Rightarrow> string \<Rightarrow> jsobj \<Rightarrow> server_state \<Rightarrow> server_state" where
  "broadcastParkingUpdate now parkingLotId updateData st =
     (if \<not> io st then st
      else
        (let e = \<lparr>ev = ''parking_updated'',
                  args = obj_lit ([(''parking_lot_id'', JStr parkingLotId)] @ updateData @
                                  [(''timestamp'', JIso now)])\<rparr>;
             st1 = io_to_emit (''parking_lot:'' @ parkingLotId) e st
         in io_to_emit ''parking_updates'' e st1))"

definition broadcastBookingUpdate ::
  "nat \<Rightarrow> string \<Rightarrow> jsval \<Rightarrow> jsobj \<Rightarrow> server_state \<Rightarrow> server_state" where
  "broadcastBookingUpdate now uid bookingId updateData st =
     (if \<not> io st then st
      else
        (let st1 = io_to_emit (''user:'' @ uid)
                     \<lparr>ev = ''booking_updated'',
                      args = obj_lit ([(''booking_id'', bookingId)] @ updateData @
                                      [(''timestamp'', JIso now)])\<rparr> st
         in io_to_emit ''admin''
              \<lparr>ev = ''booking_updated'',
               args = obj_lit ([(''booking_id'', bookingId), (''user_id'', JStr uid)] @
                               updateData @ [(''timestamp'', JIso now)])\<rparr> st1))"

definition broadcastPaymentUpdate ::
  "nat \<Rightarrow> string \<Rightarrow> jsval \<Rightarrow> jsobj \<Rightarrow> server_state \<Rightarrow> server_state" where
  "broadcastPaymentUpdate now uid paymentId updateData st =
     (if \<not> io st then st
      else io_to_emit (''user:'' @ uid)
             \<lparr>ev = ''payment_updated'',
              args = obj_lit ([(''payment_id'', paymentId)] @ updateData @
                              [(''timestamp'', JIso now)])\<rparr> st)"

definition notification_event :: "nat \<Rightarrow> jsobj \<Rightarrow> event" where
  "notification_event now notification =
     \<lparr>ev = ''notification'', args = obj_lit (notification @ [(''timestamp'', JIso now)])\<rparr>"

definition broadcastNotification :: "nat \<Rightarrow> string \<Rightarrow> jsobj \<Rightarrow> server_state \<Rightarrow> server_state" where
  "broadcastNotification now uid notification st =
     (if \<not> io st then st
      else io_to_emit (''user:'' @ uid) (notification_event now notification) st)"

text \<open>The second parameter defaults to \<^verbatim>\<open>'info'\<close> when the caller leaves it out.\<close>

definition broadcastSystemAnnouncement ::
  "nat \<Rightarrow> jsval \<Rightarrow> string option \<Rightarrow> server_state \<Rightarrow> server_state" where
  "broadcastSystemAnnouncement now message ty st =
     (if \<not> io st then st
      else io_emit
             \<lparr>ev = ''system_announcement'',
              args = obj_lit [(''message'', message),
                              (''type'', JStr (case ty of None \<Rightarrow> ''info'' | Some t \<Rightarrow> t)),
                              (''timestamp'', JIso now)]\<rparr> st)"

subsection \<open>Connection listing (lines 373-385)\<close>

record connected_users_info =
  total_connected :: nat
  users_listed :: "(string \<times> nat \<times> string) list"
  admins_online :: nat

definition getConnectedUsersInfo :: "server_state \<Rightarrow> connected_users_info" where
  "getConnectedUsersInfo st =
     (let us = map (\<lambda>e. (fst e, connectedAt (snd e), role (snd e))) (connectedUsers st) in
      \<lparr>total_connected = length us,
       users_listed = us,
       admins_online = length (filter (\<lambda>u. snd (snd u) = ''admin'') us)\<rparr>)"

section \<open>The service as a transition system\<close>

text \<open>
  What socket.io does around the listeners of the source: a socket that passed the
  middleware is added to the namespace and joins the room of its own id before the
  \<^verbatim>\<open>connection\<close> listener runs; a closing socket leaves all its rooms and the namespace
  before its \<^verbatim>\<open>disconnect\<close> listener runs.
\<close>

definition socket_open :: "socket \<Rightarrow> server_state \<Rightarrow> server_state" where
  "socket_open socket st =
     st\<lparr>sockets := Map_set (sid socket) socket (sockets st),
        rooms := Set_join (sid socket) (sid socket) (rooms st)\<rparr>"

definition socket_close :: "socket \<Rightarrow> server_state \<Rightarrow> server_state" where
  "socket_close socket st =
     st\<lparr>sockets := Map_delete (sid socket) (sockets st),
        rooms := cleanup_rooms (sid socket) (rooms st)\<rparr>"

text \<open>\<^verbatim>\<open>initializeWebSocket\<close> sets the module variable \<^verbatim>\<open>io\<close>; the middleware and the listeners
  it registers are the steps below.\<close>

definition initializeWebSocket :: "server_state \<Rightarrow> server_state" where
  "initializeWebSocket st = st\<lparr>io := True\<rparr>"

datatype inbound =
    Subscribe sub_data
  | Unsubscribe sub_data
  | GetParkingAvailability "jsobj option" db_reply
  | GetBookingStatus "jsobj option" db_reply
  | GetLiveStats "(jsval \<times> jsval \<times> jsval) option"

fun on_message :: "nat \<Rightarrow> socket \<Rightarrow> inbound \<Rightarrow> server_state \<Rightarrow> server_state" where
  "on_message now socket (Subscribe d) st = handleRoomSubscription now socket d st"
| "on_message now socket (Unsubscribe d) st = handleRoomUnsubscription now socket d st"
| "on_message now socket (GetParkingAvailability d q) st =
     handleParkingAvailabilityRequest now socket d q st"
| "on_message now socket (GetBookingStatus d q) st =
     handleBookingStatusRequest now socket d q st"
| "on_message now socket (GetLiveStats q) st = on_get_live_stats now socket q st"

datatype action =
    Initialize
  | Connect string handshake nat
  | Inbound string inbound nat
  | Disconnect string
  | ParkingUpdate string jsobj nat
  | BookingUpdate string jsval jsobj nat
  | PaymentUpdate string jsval jsobj nat
  | Notification string jsobj nat
  | SystemAnnouncement jsval "string option" nat
  | StoreWrite "user_row list"

text \<open>
  One step of the service. A connection is attempted only on a running server and gets
  an id no live socket has; a handshake the middleware rejects leaves the state as it
  is. Messages and disconnects come from live sockets only. The store changes behind
  the service's back.
\<close>

fun step :: "(string \<Rightarrow> string option option) \<Rightarrow> action \<Rightarrow> server_state \<Rightarrow> server_state" where
  "step verify Initialize st = initializeWebSocket st"
| "step verify (Connect i hs now) st =
     (if \<not> io st \<or> Map_has i (sockets st) then st
      else (case authenticate verify st i hs of
              Inl err \<Rightarrow> st
            | Inr socket \<Rightarrow> on_connection now socket (socket_open socket st)))"
| "step verify (Inbound i m now) st =
     (case Map_get i (sockets st) of
        None \<Rightarrow> st
      | Some socket \<Rightarrow> on_message now socket m st)"
| "step verify (Disconnect i) st =
     (case Map_get i (sockets st) of
        None \<Rightarrow> st
      | Some socket \<Rightarrow> on_disconnect socket (socket_close socket st))"
| "step verify (ParkingUpdate l d now) st = broadcastParkingUpdate now l d st"
| "step verify (BookingUpdate u b d now) st = broadcastBookingUpdate now u b d st"
| "step verify (PaymentUpdate u p d now) st = broadcastPaymentUpdate now u p d st"
| "step verify (Notification u n now) st = broadcastNotification now u n st"
| "step verify (SystemAnnouncement m ty now) st = broadcastSystemAnnouncement now m ty st"
| "step verify (StoreWrite tbl) st = st\<lparr>users := tbl\<rparr>"

definition run :: "(string \<Rightarrow> string option option) \<Rightarrow> action list \<Rightarrow> server_state \<Rightarrow> server_state" where
  "run verify acts st = fold (step verify) acts st"

section \<open>Properties\<close>

text \<open>
  A Map from rooms to Sets represents a JavaScript value when every Set holds a member
  once; the source and the adapter both drop a Set that becomes empty. \<open>sets_ok\<close>
  states both, \<open>no_empty_topic\<close> the second alone.
\<close>

definition sets_ok :: "(string \<times> string list) list \<Rightarrow> bool" where
  "sets_ok m = list_all (\<lambda>e. snd e \<noteq> [] \<and> distinct (snd e)) m"


definition index_ok :: "server_state \<Rightarrow> bool" where
  "index_ok st = (sets_ok (rooms st) \<and> sets_ok (roomSubscriptions st))"

text \<open>The subject ids \<^verbatim>\<open>roomSubscriptions\<close> tracks for a room.\<close>

definition tracked_subscribers :: "server_state \<Rightarrow> string \<Rightarrow> string list" where
  "tracked_subscribers st r = (case Map_get r (roomSubscriptions st) of None \<Rightarrow> [] | Some s \<Rightarrow> s)"



text \<open>The registry holds an entry for this very connection: the entry of its subject names
  its socket id.\<close>

definition registered :: "server_state \<Rightarrow> socket \<Rightarrow> bool" where
  "registered st socket =
     (case Map_get (userId socket) (connectedUsers st) of
        None \<Rightarrow> False
      | Some c \<Rightarrow> socketId c = sid socket)"

text \<open>The outbound queue of a connection: the events sent to it, in emission order.\<close>

definition queue_of :: "server_state \<Rightarrow> string \<Rightarrow> event list" where
  "queue_of st i = map snd (filter (\<lambda>p. fst p = i) (outbox st))"

text \<open>An event carries a timestamp: its \<^verbatim>\<open>timestamp\<close> property is the ISO string of an
  instant.\<close>

definition has_timestamp :: "event \<Rightarrow> bool" where
  "has_timestamp e = (case Map_get ''timestamp'' (args e) of Some (JIso t) \<Rightarrow> True | _ \<Rightarrow> False)"

text \<open>An \<^verbatim>\<open>error\<close> event has a \<^verbatim>\<open>message\<close> and nothing else; any other event carries a
  timestamp.\<close>

definition stamped_unless_error :: "event \<Rightarrow> bool" where
  "stamped_unless_error e =
     (if ev e = ''error'' then map fst (args e) = [''message''] else has_timestamp e)"

text \<open>Every event sent so far is of one of these two kinds.\<close>

definition events_ok :: "server_state \<Rightarrow> bool" where
  "events_ok st = list_all stamped_unless_error (map snd (outbox st))"

text \<open>The namespace stores every live socket under its own id.\<close>

definition sockets_ok :: "server_state \<Rightarrow> bool" where
  "sockets_ok st = list_all (\<lambda>e. sid (snd e) = fst e) (sockets st)"

text \<open>The registry holds at most one entry for a subject.\<close>

definition registry_ok :: "server_state \<Rightarrow> bool" where
  "registry_ok st = distinct (map fst (connectedUsers st))"

text \<open>Actions that leave connection \<open>i\<close> in room \<open>r\<close>: any but its disconnect and its
  own unsubscribe from that room.\<close>

fun keeps_room :: "string \<Rightarrow> string \<Rightarrow> action \<Rightarrow> bool" where
  "keeps_room i r (Disconnect j) = (j \<noteq> i)"
| "keeps_room i r (Inbound j (Unsubscribe d) t) = (j \<noteq> i \<or> room d \<noteq> Some r)"
| "keeps_room i r a = True"

text \<open>Actions that neither admit a connection nor change the store.\<close>

fun store_free :: "action \<Rightarrow> bool" where
  "store_free (Connect i hs now) = False"
| "store_free (StoreWrite tbl) = False"
| "store_free a = True"

section \<open>Example inputs\<close>

text \<open>A verifier under which a token is the subject id it was issued for, a users table
  with one ordinary user and one administrator, and their handshakes and sockets.\<close>

definition token_is_id :: "string \<Rightarrow> string option option" where
  "token_is_id tok = Some (Some tok)"

definition example_users :: "user_row list" where
  "example_users =
     [\<lparr>user_id = ''u1'', user_name = ''Alice'', user_email = ''alice@example.org'', user_role = ''user''\<rparr>,
      \<lparr>user_id = ''a1'', user_name = ''Root'', user_email = ''root@example.org'', user_role = ''admin''\<rparr>]"

definition bearer :: "string \<Rightarrow> handshake" where
  "bearer tok = \<lparr>auth_token = Some tok, authorization = None\<rparr>"

definition alice :: "string \<Rightarrow> socket" where
  "alice i = \<lparr>sid = i, userId = ''u1'', userRole = ''user'',
              userEmail = ''alice@example.org'', userName = ''Alice''\<rparr>"

definition root :: "string \<Rightarrow> socket" where
  "root i = \<lparr>sid = i, userId = ''a1'', userRole = ''admin'',
             userEmail = ''root@example.org'', userName = ''Root''\<rparr>"

text \<open>Payloads of subscribe and unsubscribe messages: a parking lot, the admin room asked
  for as an administrator and as something else, the room of the user's own subject, and
  a payload without a room.\<close>

definition example_lot :: sub_data where
  "example_lot = \<lparr>room = Some ''parking_lot:42'', type = Some ''parking''\<rparr>"

definition admin_room :: sub_data where
  "admin_room = \<lparr>room = Some ''admin'', type = Some ''admin''\<rparr>"

definition admin_as_parking :: sub_data where
  "admin_as_parking = \<lparr>room = Some ''admin'', type = Some ''parking''\<rparr>"

definition leave_own_room :: sub_data where
  "leave_own_room = \<lparr>room = Some ''user:u1'', type = None\<rparr>"

definition no_room :: sub_data where
  "no_room = \<lparr>room = None, type = Some ''parking''\<rparr>"

text \<open>The users table after the ordinary user was made an administrator.\<close>

definition promoted_users :: "user_row list" where
  "promoted_users =
     [\<lparr>user_id = ''u1'', user_name = ''Alice'', user_email = ''alice@example.org'', user_role = ''admin''\<rparr>,
      \<lparr>user_id = ''a1'', user_name = ''Root'', user_email = ''root@example.org'', user_role = ''admin''\<rparr>]"

text \<open>States the service reaches: the server running on the example table; the user
  connected; the user subscribed to the parking lot; the user connected twice; and, after
  the first of the two connections closed, connected a third time and subscribed.\<close>

definition started :: server_state where
  "started = run token_is_id [StoreWrite example_users, Initialize] init_state"

definition alice_online :: server_state where
  "alice_online = run token_is_id [Connect ''s1'' (bearer ''u1'') 1] started"


definition two_devices :: server_state where
  "two_devices = run token_is_id
     [Connect ''s1'' (bearer ''u1'') 1, Connect ''s2'' (bearer ''u1'') 2] started"


section \<open>Map and Set lemmas\<close>

lemma Map_get_Map_set: "Map_get k' (Map_set k v m) = (if k' = k then Some v else Map_get k' m)"
  by (induction m) (auto simp: Map_get_def)

lemma Map_get_Map_delete: "Map_get k' (Map_delete k m) = (if k' = k then None else Map_get k' m)"
  by (induction m) (auto simp: Map_get_def Map_delete_def)

lemma Map_set_twice: "Map_set k v (Map_set k w m) = Map_set k v m"
  by (induction m) auto



lemma list_all_Map_set: "P (k, v) \<Longrightarrow> list_all P m \<Longrightarrow> list_all P (Map_set k v m)"
  by (induction m) auto

lemma list_all_Map_delete: "list_all P m \<Longrightarrow> list_all P (Map_delete k m)"
  by (induction m) (auto simp: Map_delete_def)

lemma Map_get_list_all: "list_all P m \<Longrightarrow> Map_get k m = Some v \<Longrightarrow> P (k, v)"
  by (induction m) (auto simp: Map_get_def split: if_splits)

lemma keys_Map_set: "fst ` set (Map_set k v m) = insert k (fst ` set m)"
  by (induction m) force+

lemma distinct_keys_Map_set: "distinct (map fst m) \<Longrightarrow> distinct (map fst (Map_set k v m))"
proof (induction m)
  case Nil
  then show ?case by simp
next
  case (Cons e m)
  then show ?case by (cases e) (auto simp: keys_Map_set)
qed

lemma distinct_keys_Map_delete: "distinct (map fst m) \<Longrightarrow> distinct (map fst (Map_delete k m))"
  by (simp add: Map_delete_def distinct_map_filter)

lemma one_entry_Map_set:
  "distinct (map fst m) \<Longrightarrow> length (filter (\<lambda>e. fst e = k) (Map_set k v m)) = 1"
proof (induction m)
  case Nil
  then show ?case by simp
next
  case (Cons e m)
  obtain k' v' where e: "e = (k', v')" by (cases e)
  show ?case
  proof (cases "k' = k")
    case True
    then have "k \<notin> fst ` set m" using Cons.prems e by simp
    then have "filter (\<lambda>e. fst e = k) m = []" by (auto simp: filter_empty_conv)
    then show ?thesis using True e by simp
  next
    case False
    then show ?thesis using Cons e by simp
  qed
qed

lemma distinct_Set_add: "distinct s \<Longrightarrow> distinct (Set_add x s)"
  by (simp add: Set_add_def)

lemma Set_add_nonempty: "Set_add x s \<noteq> []"
  by (auto simp: Set_add_def)

lemma in_Set_add: "y \<in> set (Set_add x s) \<longleftrightarrow> y = x \<or> y \<in> set s"
  by (auto simp: Set_add_def)

lemma count_list_Set_add:
  "distinct s \<Longrightarrow> count_list (Set_add x s) x = 1"
  by (induction s) (auto simp: Set_add_def)

lemma Set_add_idem: "Set_add x (Set_add x s) = Set_add x s"
  by (simp add: Set_add_def)

lemma distinct_Set_delete: "distinct s \<Longrightarrow> distinct (Set_delete x s)"
  by (simp add: Set_delete_def)


lemma in_Set_delete: "y \<in> set (Set_delete x s) \<longleftrightarrow> y \<noteq> x \<and> y \<in> set s"
  by (auto simp: Set_delete_def)

lemma count_list_distinct_mem: "distinct xs \<Longrightarrow> x \<in> set xs \<Longrightarrow> count_list xs x = 1"
  by (induction xs) auto

lemma Map_get_Set_join:
  "Map_get r (Set_join r' x m) =
     (if r = r' then Some (Set_add x (case Map_get r m of None \<Rightarrow> [] | Some s \<Rightarrow> s))
      else Map_get r m)"
  by (simp add: Set_join_def Map_get_Map_set Set_add_def split: option.splits)

lemma Set_join_idem: "Set_join r x (Set_join r x m) = Set_join r x m"
  by (simp add: Set_join_def Map_get_Map_set Set_add_def Map_set_twice split: option.splits)

lemma obj_lit_snoc: "obj_lit (kvs @ [(k, v)]) = Map_set k v (obj_lit kvs)"
  by (simp add: obj_lit_def)

subsection \<open>Sets that are non-empty and hold a member once\<close>

lemma sets_ok_Set_join: "sets_ok m \<Longrightarrow> sets_ok (Set_join r x m)"
  unfolding sets_ok_def Set_join_def
  by (auto split: option.splits intro!: list_all_Map_set
      simp: distinct_Set_add Set_add_nonempty dest: Map_get_list_all)

lemma sets_ok_Set_leave: "sets_ok m \<Longrightarrow> sets_ok (Set_leave r x m)"
  unfolding sets_ok_def Set_leave_def Let_def
  by (auto split: option.splits intro!: list_all_Map_set list_all_Map_delete
      simp: distinct_Set_delete dest: Map_get_list_all)

lemma sets_ok_cleanup_rooms: "sets_ok m \<Longrightarrow> sets_ok (cleanup_rooms u m)"
  by (induction u m rule: cleanup_rooms.induct) (auto simp: sets_ok_def Let_def distinct_Set_delete)


lemma sets_ok_lookup: "sets_ok m \<Longrightarrow> distinct (case Map_get r m of None \<Rightarrow> [] | Some s \<Rightarrow> s)"
  by (auto simp: sets_ok_def split: option.splits dest: Map_get_list_all)

subsection \<open>The cleanup loop\<close>






section \<open>What the listeners do\<close>

subsection \<open>Subscribe and unsubscribe, case by case\<close>

lemma roomSubscriptions_socket_join [simp]:
  "roomSubscriptions (socket_join s r st) = roomSubscriptions st"
  by (simp add: socket_join_def)

lemma roomSubscriptions_socket_leave [simp]:
  "roomSubscriptions (socket_leave s r st) = roomSubscriptions st"
  by (simp add: socket_leave_def)

lemma handleRoomSubscription_accepted:
  assumes "room d = Some r" "type d = Some t" "r \<noteq> []" "t \<noteq> []"
    "t = ''admin'' \<longrightarrow> userRole s = ''admin''"
  shows "handleRoomSubscription now s d st =
        socket_emit s
          \<lparr>ev = ''subscribed'',
           args = obj_lit [(''room'', JStr r), (''type'', JStr t), (''timestamp'', JIso now)]\<rparr>
          (st\<lparr>rooms := Set_join r (sid s) (rooms st),
              roomSubscriptions := Set_join r (userId s) (roomSubscriptions st)\<rparr>)"
proof (cases "Map_get r (roomSubscriptions st)")
  case None
  then show ?thesis using assms
    by (auto simp: handleRoomSubscription_def socket_join_def Let_def Map_has_def
        Map_get_Map_set Set_join_def Set_add_def Map_set_twice)
next
  case (Some s0)
  then show ?thesis using assms
    by (auto simp: handleRoomSubscription_def socket_join_def Let_def Map_has_def
        Set_join_def)
qed

lemma handleRoomSubscription_rejected:
  assumes "\<not> (\<exists>r t. room d = Some r \<and> type d = Some t \<and> r \<noteq> [] \<and> t \<noteq> [] \<and>
                  (t = ''admin'' \<longrightarrow> userRole s = ''admin''))"
  shows "\<exists>msg. handleRoomSubscription now s d st = socket_emit s (error_event msg) st"
proof (cases "room d")
  case None
  then show ?thesis by (auto simp: handleRoomSubscription_def)
next
  case r: (Some r)
  show ?thesis
  proof (cases "type d")
    case None
    with r show ?thesis by (auto simp: handleRoomSubscription_def)
  next
    case t: (Some t)
    with r assms have "r = [] \<or> t = [] \<or> (t = ''admin'' \<and> userRole s \<noteq> ''admin'')"
      by auto
    with r t show ?thesis by (auto simp: handleRoomSubscription_def)
  qed
qed

lemma handleRoomSubscription_cases:
  "(\<exists>msg. handleRoomSubscription now s d st = socket_emit s (error_event msg) st) \<or>
   (\<exists>r t. room d = Some r \<and> type d = Some t \<and>
      handleRoomSubscription now s d st =
        socket_emit s
          \<lparr>ev = ''subscribed'',
           args = obj_lit [(''room'', JStr r), (''type'', JStr t), (''timestamp'', JIso now)]\<rparr>
          (st\<lparr>rooms := Set_join r (sid s) (rooms st),
              roomSubscriptions := Set_join r (userId s) (roomSubscriptions st)\<rparr>))"
proof (cases "\<exists>r t. room d = Some r \<and> type d = Some t \<and> r \<noteq> [] \<and> t \<noteq> [] \<and>
                  (t = ''admin'' \<longrightarrow> userRole s = ''admin'')")
  case True
  then obtain r t where "room d = Some r" "type d = Some t" "r \<noteq> []" "t \<noteq> []"
    "t = ''admin'' \<longrightarrow> userRole s = ''admin''" by blast
  then show ?thesis using handleRoomSubscription_accepted[of d r t s now st] by blast
next
  case False
  then show ?thesis using handleRoomSubscription_rejected[of d s now st] by blast
qed

lemma subscribe_admin_type_rejected:
  assumes "userRole s \<noteq> ''admin''" and "type d = Some ''admin''"
  shows "\<exists>msg. handleRoomSubscription now s d st = socket_emit s (error_event msg) st"
  using assms by (intro handleRoomSubscription_rejected) auto

lemma handleRoomUnsubscription_cases:
  "(\<exists>msg. handleRoomUnsubscription now s d st = socket_emit s (error_event msg) st) \<or>
   (\<exists>r. room d = Some r \<and>
      handleRoomUnsubscription now s d st =
        socket_emit s
          \<lparr>ev = ''unsubscribed'',
           args = obj_lit [(''room'', JStr r), (''timestamp'', JIso now)]\<rparr>
          (st\<lparr>rooms := Set_leave r (sid s) (rooms st),
              roomSubscriptions := Set_leave r (userId s) (roomSubscriptions st)\<rparr>))"
proof (cases "room d")
  case None
  then show ?thesis by (auto simp: handleRoomUnsubscription_def)
next
  case r: (Some r)
  show ?thesis
  proof (cases "r = []")
    case True
    with r show ?thesis by (auto simp: handleRoomUnsubscription_def)
  next
    case False
    have "handleRoomUnsubscription now s d st =
        socket_emit s
          \<lparr>ev = ''unsubscribed'',
           args = obj_lit [(''room'', JStr r), (''timestamp'', JIso now)]\<rparr>
          (st\<lparr>rooms := Set_leave r (sid s) (rooms st),
              roomSubscriptions := Set_leave r (userId s) (roomSubscriptions st)\<rparr>)"
      using False r
      by (cases "Map_get r (roomSubscriptions st)")
         (simp_all add: handleRoomUnsubscription_def socket_leave_def Let_def Set_leave_def)
    with r show ?thesis by blast
  qed
qed

subsection \<open>Admission\<close>

lemma authenticate_sid: "authenticate verify st i hs = Inr s \<Longrightarrow> sid s = i"
  by (auto simp: authenticate_def Let_def split: if_splits option.splits)

lemma authenticate_found:
  assumes "handshake_token hs = Some tok" and "tok \<noteq> []" and "verify tok = Some (Some d)"
    and "single_user d (users st) = Some row"
  shows "authenticate verify st j hs =
           Inr \<lparr>sid = j, userId = user_id row, userRole = user_role row,
                userEmail = user_email row, userName = user_name row\<rparr>"
  using assms by (simp add: authenticate_def Let_def falsy_def)

lemma subscribers_of_socket_join:
  "subscribers_of (socket_join s r' st) r =
     (if r = r' then Set_add (sid s) (subscribers_of st r) else subscribers_of st r)"
  by (simp add: subscribers_of_def socket_join_def Map_get_Set_join)

lemma subscribers_of_socket_emit [simp]:
  "subscribers_of (socket_emit s e st) r = subscribers_of st r"
  by (simp add: subscribers_of_def socket_emit_def)

lemma subscribers_of_socket_open:
  "subscribers_of (socket_open s st) r =
     (if r = sid s then Set_add (sid s) (subscribers_of st r) else subscribers_of st r)"
  by (simp add: subscribers_of_def socket_open_def Map_get_Set_join)

lemma subscribers_of_connectedUsers_update [simp]:
  "subscribers_of (st\<lparr>connectedUsers := c\<rparr>) r = subscribers_of st r"
  by (simp add: subscribers_of_def)

lemma subscribers_of_on_connection:
  "subscribers_of (on_connection now s st) r =
     (let a = (if r = ''user:'' @ userId s then Set_add (sid s) (subscribers_of st r)
               else subscribers_of st r)
      in if userRole s = ''admin'' \<and> r = ''admin'' then Set_add (sid s) a else a)"
  by (simp add: on_connection_def Let_def subscribers_of_socket_join)

lemma subscribers_of_admission_mono:
  "j \<in> set (subscribers_of st r) \<Longrightarrow>
   j \<in> set (subscribers_of (on_connection now s (socket_open s st)) r)"
  by (auto simp: subscribers_of_on_connection subscribers_of_socket_open Let_def in_Set_add)

lemma subscribers_of_admission_own:
  "sid s \<in> set (subscribers_of (on_connection now s (socket_open s st)) (''user:'' @ userId s))"
  by (simp add: subscribers_of_on_connection Let_def in_Set_add)

lemma subscribers_of_admission_admin:
  "userRole s = ''admin'' \<Longrightarrow>
   sid s \<in> set (subscribers_of (on_connection now s (socket_open s st)) ''admin'')"
  by (simp add: subscribers_of_on_connection Let_def in_Set_add)

lemma connectedUsers_admission:
  "connectedUsers (on_connection now s (socket_open s st)) =
     Map_set (userId s) \<lparr>socketId = sid s, connectedAt = now, role = userRole s\<rparr>
       (connectedUsers st)"
  by (simp add: on_connection_def Let_def socket_emit_def socket_join_def socket_open_def)

lemma io_admission [simp]: "io (on_connection now s (socket_open s st)) = io st"
  by (simp add: on_connection_def Let_def socket_emit_def socket_join_def socket_open_def)

text \<open>The tracking Map \<^verbatim>\<open>roomSubscriptions\<close> is written by the subscribe, unsubscribe and
  disconnect listeners only: admission leaves it as it was.\<close>

lemma admission_not_tracked:
  "roomSubscriptions (on_connection now s (socket_open s st)) = roomSubscriptions st"
  by (simp add: on_connection_def Let_def socket_emit_def socket_open_def)

subsection \<open>Queues\<close>

lemma queue_of_targets:
  "map snd (filter (\<lambda>p. fst p = i) (map (\<lambda>j. (j, e)) xs)) = replicate (count_list xs i) e"
  by (induction xs) auto

lemma queue_of_io_to_emit:
  "queue_of (io_to_emit r e st) i = queue_of st i @ replicate (count_list (subscribers_of st r) i) e"
  by (simp add: queue_of_def io_to_emit_def queue_of_targets)

subsection \<open>The live sockets\<close>

lemma sockets_on_connection [simp]: "sockets (on_connection now s st) = sockets st"
  by (simp add: on_connection_def Let_def socket_emit_def socket_join_def)

lemma sockets_on_message [simp]: "sockets (on_message now s m st) = sockets st"
proof (cases m)
  case (Subscribe d)
  then show ?thesis using handleRoomSubscription_cases[of now s d st]
    by (auto simp: socket_emit_def)
next
  case (Unsubscribe d)
  then show ?thesis using handleRoomUnsubscription_cases[of now s d st]
    by (auto simp: socket_emit_def)
qed (auto simp: handleParkingAvailabilityRequest_def handleBookingStatusRequest_def
      on_get_live_stats_def handleLiveStatsRequest_def socket_emit_def
      split: option.splits db_reply.splits)

lemma sockets_broadcasts [simp]:
  "sockets (broadcastParkingUpdate now l d st) = sockets st"
  "sockets (broadcastBookingUpdate now u b d st) = sockets st"
  "sockets (broadcastPaymentUpdate now u b d st) = sockets st"
  "sockets (broadcastNotification now u d st) = sockets st"
  "sockets (broadcastSystemAnnouncement now m ty st) = sockets st"
  by (simp_all add: broadcastParkingUpdate_def broadcastBookingUpdate_def
      broadcastPaymentUpdate_def broadcastNotification_def broadcastSystemAnnouncement_def
      Let_def io_to_emit_def io_emit_def)

lemma sockets_step:
  "sockets (step verify a st) =
     (case a of
        Connect i hs now \<Rightarrow>
          (if \<not> io st \<or> Map_has i (sockets st) then sockets st
           else case authenticate verify st i hs of
                  Inl err \<Rightarrow> sockets st
                | Inr s \<Rightarrow> Map_set (sid s) s (sockets st))
      | Disconnect i \<Rightarrow>
          (case Map_get i (sockets st) of None \<Rightarrow> sockets st
           | Some s \<Rightarrow> Map_delete (sid s) (sockets st))
      | _ \<Rightarrow> sockets st)"
  by (cases a)
     (auto simp: initializeWebSocket_def socket_open_def socket_close_def on_disconnect_def
       split: option.splits sum.splits)

section \<open>Invariants of the reachable states\<close>

subsection \<open>Rooms and tracked subscriptions\<close>

lemma index_ok_socket_emit [simp]: "index_ok (socket_emit s e st) = index_ok st"
  by (simp add: index_ok_def socket_emit_def)

lemma index_ok_io_to_emit [simp]: "index_ok (io_to_emit r e st) = index_ok st"
  by (simp add: index_ok_def io_to_emit_def)

lemma index_ok_io_emit [simp]: "index_ok (io_emit e st) = index_ok st"
  by (simp add: index_ok_def io_emit_def)

lemma index_ok_socket_join: "index_ok st \<Longrightarrow> index_ok (socket_join s r st)"
  by (simp add: index_ok_def socket_join_def sets_ok_Set_join)

lemma index_ok_socket_leave: "index_ok st \<Longrightarrow> index_ok (socket_leave s r st)"
  by (simp add: index_ok_def socket_leave_def sets_ok_Set_leave)

lemma index_ok_on_connection: "index_ok st \<Longrightarrow> index_ok (on_connection now s st)"
proof -
  assume a: "index_ok st"
  let ?st1 = "st\<lparr>connectedUsers := Map_set (userId s)
      \<lparr>socketId = sid s, connectedAt = now, role = userRole s\<rparr> (connectedUsers st)\<rparr>"
  have "index_ok ?st1" using a by (simp add: index_ok_def)
  then have "index_ok (socket_join s (''user:'' @ userId s) ?st1)"
    by (rule index_ok_socket_join)
  then show ?thesis
    by (auto simp: on_connection_def Let_def intro: index_ok_socket_join)
qed

lemma index_ok_handleRoomSubscription:
  "index_ok st \<Longrightarrow> index_ok (handleRoomSubscription now s d st)"
  using handleRoomSubscription_cases[of now s d st]
  by (auto simp: index_ok_def sets_ok_Set_join socket_emit_def)

lemma index_ok_handleRoomUnsubscription:
  "index_ok st \<Longrightarrow> index_ok (handleRoomUnsubscription now s d st)"
  using handleRoomUnsubscription_cases[of now s d st]
  by (auto simp: index_ok_def sets_ok_Set_leave socket_emit_def)

lemma index_ok_requests:
  "index_ok (handleParkingAvailabilityRequest now s d q st) = index_ok st"
  "index_ok (handleBookingStatusRequest now s d q st) = index_ok st"
  "index_ok (on_get_live_stats now s q' st) = index_ok st"
  by (simp_all add: handleParkingAvailabilityRequest_def handleBookingStatusRequest_def
      on_get_live_stats_def handleLiveStatsRequest_def split: option.splits db_reply.splits)

lemma index_ok_on_message: "index_ok st \<Longrightarrow> index_ok (on_message now s m st)"
  by (cases m) (simp_all add: index_ok_handleRoomSubscription index_ok_handleRoomUnsubscription
      index_ok_requests)

lemma index_ok_broadcasts:
  "index_ok (broadcastParkingUpdate now l d st) = index_ok st"
  "index_ok (broadcastBookingUpdate now u b d st) = index_ok st"
  "index_ok (broadcastPaymentUpdate now u b d st) = index_ok st"
  "index_ok (broadcastNotification now u d st) = index_ok st"
  "index_ok (broadcastSystemAnnouncement now m ty st) = index_ok st"
  by (simp_all add: broadcastParkingUpdate_def broadcastBookingUpdate_def
      broadcastPaymentUpdate_def broadcastNotification_def broadcastSystemAnnouncement_def Let_def)

lemma index_ok_socket_open: "index_ok st \<Longrightarrow> index_ok (socket_open s st)"
  by (simp add: index_ok_def socket_open_def sets_ok_Set_join)

lemma index_ok_disconnect: "index_ok st \<Longrightarrow> index_ok (on_disconnect s (socket_close s st))"
  by (simp add: index_ok_def socket_close_def on_disconnect_def sets_ok_cleanup_rooms)

lemma index_ok_step: "index_ok st \<Longrightarrow> index_ok (step verify a st)"
proof (cases a)
  case (Connect i hs now)
  assume "index_ok st"
  then show ?thesis using Connect
    by (auto split: sum.splits intro: index_ok_on_connection index_ok_socket_open)
next
  case (Inbound i m now)
  assume "index_ok st"
  then show ?thesis using Inbound
    by (auto split: option.splits intro: index_ok_on_message)
next
  case (Disconnect i)
  assume "index_ok st"
  then show ?thesis using Disconnect
    by (auto split: option.splits intro: index_ok_disconnect)
next
  case Initialize
  assume "index_ok st"
  then show ?thesis using Initialize by (simp add: initializeWebSocket_def index_ok_def)
next
  case (StoreWrite tbl)
  assume "index_ok st"
  then show ?thesis using StoreWrite by (simp add: index_ok_def)
qed (simp_all add: index_ok_broadcasts)

lemma index_ok_fold: "index_ok st \<Longrightarrow> index_ok (fold (step verify) acts st)"
  by (induction acts arbitrary: st) (simp_all add: index_ok_step)

lemma index_ok_run: "index_ok (run verify acts init_state)"
  unfolding run_def by (rule index_ok_fold) (simp add: index_ok_def sets_ok_def init_state_def)

lemma index_ok_admission: "index_ok st \<Longrightarrow> index_ok (on_connection now s (socket_open s st))"
  by (simp add: index_ok_on_connection index_ok_socket_open)

lemma distinct_subscribers_of: "index_ok st \<Longrightarrow> distinct (subscribers_of st r)"
  using sets_ok_lookup[of "rooms st" r] by (simp add: index_ok_def subscribers_of_def)

subsection \<open>Sockets are stored under their own id\<close>

lemma sockets_ok_step: "sockets_ok st \<Longrightarrow> sockets_ok (step verify a st)"
  unfolding sockets_ok_def sockets_step
  by (auto split: action.splits option.splits sum.splits
      intro!: list_all_Map_set list_all_Map_delete)

lemma sockets_ok_fold: "sockets_ok st \<Longrightarrow> sockets_ok (fold (step verify) acts st)"
  by (induction acts arbitrary: st) (simp_all add: sockets_ok_step)

lemma sockets_ok_run: "sockets_ok (run verify acts init_state)"
  unfolding run_def by (rule sockets_ok_fold) (simp add: sockets_ok_def init_state_def)

lemma sockets_ok_sid: "sockets_ok st \<Longrightarrow> Map_get i (sockets st) = Some s \<Longrightarrow> sid s = i"
  unfolding sockets_ok_def using Map_get_list_all[of "\<lambda>e. sid (snd e) = fst e" "sockets st" i s]
  by simp

lemma step_keeps_socket:
  assumes "sockets_ok st" and "a \<noteq> Disconnect i" and "Map_get i (sockets st) = Some s"
  shows "Map_get i (sockets (step verify a st)) = Some s"
proof (cases a)
  case (Connect j hs now)
  then show ?thesis unfolding sockets_step using assms(3)
    by (auto simp: Map_has_def Map_get_Map_set split: sum.splits dest!: authenticate_sid)
next
  case (Disconnect j)
  then have "j \<noteq> i" using assms(2) by simp
  then show ?thesis unfolding sockets_step using assms(1,3) Disconnect
    by (auto simp: Map_get_Map_delete split: option.splits dest: sockets_ok_sid)
qed (simp_all only: sockets_step action.case assms(3))

lemma fold_keeps_socket:
  "sockets_ok st \<Longrightarrow> Disconnect i \<notin> set acts \<Longrightarrow> Map_get i (sockets st) = Some s \<Longrightarrow>
   Map_get i (sockets (fold (step verify) acts st)) = Some s"
proof (induction acts arbitrary: st)
  case Nil
  then show ?case by simp
next
  case (Cons a acts)
  have "a \<noteq> Disconnect i" using Cons.prems(2) by auto
  then have "Map_get i (sockets (step verify a st)) = Some s"
    using Cons.prems(1,3) by (intro step_keeps_socket)
  moreover have "sockets_ok (step verify a st)" using Cons.prems(1) by (rule sockets_ok_step)
  ultimately show ?case using Cons.IH[of "step verify a st"] Cons.prems(2) by simp
qed

subsection \<open>One registry entry for a subject\<close>

lemma connectedUsers_on_message [simp]:
  "connectedUsers (on_message now s m st) = connectedUsers st"
proof (cases m)
  case (Subscribe d)
  then show ?thesis using handleRoomSubscription_cases[of now s d st]
    by (auto simp: socket_emit_def)
next
  case (Unsubscribe d)
  then show ?thesis using handleRoomUnsubscription_cases[of now s d st]
    by (auto simp: socket_emit_def)
qed (auto simp: handleParkingAvailabilityRequest_def handleBookingStatusRequest_def
      on_get_live_stats_def handleLiveStatsRequest_def socket_emit_def
      split: option.splits db_reply.splits)

lemma connectedUsers_broadcasts [simp]:
  "connectedUsers (broadcastParkingUpdate now l d st) = connectedUsers st"
  "connectedUsers (broadcastBookingUpdate now u b d st) = connectedUsers st"
  "connectedUsers (broadcastPaymentUpdate now u b d st) = connectedUsers st"
  "connectedUsers (broadcastNotification now u d st) = connectedUsers st"
  "connectedUsers (broadcastSystemAnnouncement now m ty st) = connectedUsers st"
  by (simp_all add: broadcastParkingUpdate_def broadcastBookingUpdate_def
      broadcastPaymentUpdate_def broadcastNotification_def broadcastSystemAnnouncement_def
      Let_def io_to_emit_def io_emit_def)

lemma registry_ok_step: "registry_ok st \<Longrightarrow> registry_ok (step verify a st)"
proof (cases a)
  case (Connect i hs now)
  assume "registry_ok st"
  then show ?thesis using Connect
    by (auto simp: registry_ok_def connectedUsers_admission distinct_keys_Map_set
        split: sum.splits)
next
  case (Disconnect i)
  assume "registry_ok st"
  then show ?thesis using Disconnect
    by (auto simp: registry_ok_def on_disconnect_def socket_close_def distinct_keys_Map_delete
        split: option.splits)
next
  case (Inbound i m now)
  assume "registry_ok st"
  then show ?thesis using Inbound by (auto simp: registry_ok_def split: option.splits)
qed (simp_all add: registry_ok_def initializeWebSocket_def)

lemma registry_ok_fold: "registry_ok st \<Longrightarrow> registry_ok (fold (step verify) acts st)"
  by (induction acts arbitrary: st) (simp_all add: registry_ok_step)

lemma registry_ok_run: "registry_ok (run verify acts init_state)"
  unfolding run_def by (rule registry_ok_fold) (simp add: registry_ok_def init_state_def)

subsection \<open>Events\<close>

lemma stamped_error_event: "stamped_unless_error (error_event msg)"
  by (simp add: stamped_unless_error_def error_event_def obj_lit_def)

lemma stamped_obj:
  "n \<noteq> ''error'' \<Longrightarrow>
   stamped_unless_error \<lparr>ev = n, args = obj_lit (kvs @ [(''timestamp'', JIso t)])\<rparr>"
  by (simp add: stamped_unless_error_def has_timestamp_def obj_lit_snoc Map_get_Map_set)

lemma stamped_lit2:
  "n \<noteq> ''error'' \<Longrightarrow> stamped_unless_error \<lparr>ev = n, args = obj_lit [a, (''timestamp'', JIso t)]\<rparr>"
  using stamped_obj[of n "[a]" t] by simp

lemma stamped_lit3:
  "n \<noteq> ''error'' \<Longrightarrow> stamped_unless_error \<lparr>ev = n, args = obj_lit [a, b, (''timestamp'', JIso t)]\<rparr>"
  using stamped_obj[of n "[a, b]" t] by simp

lemma stamped_lit1_app:
  "n \<noteq> ''error'' \<Longrightarrow>
   stamped_unless_error \<lparr>ev = n, args = obj_lit (a # d @ [(''timestamp'', JIso t)])\<rparr>"
  using stamped_obj[of n "a # d" t] by simp

lemma stamped_lit2_app:
  "n \<noteq> ''error'' \<Longrightarrow>
   stamped_unless_error \<lparr>ev = n, args = obj_lit (a # b # d @ [(''timestamp'', JIso t)])\<rparr>"
  using stamped_obj[of n "a # b # d" t] by simp

lemma events_ok_socket_emit:
  "events_ok st \<Longrightarrow> stamped_unless_error e \<Longrightarrow> events_ok (socket_emit s e st)"
  by (simp add: events_ok_def socket_emit_def)

lemma events_ok_io_to_emit:
  "events_ok st \<Longrightarrow> stamped_unless_error e \<Longrightarrow> events_ok (io_to_emit r e st)"
  by (auto simp: events_ok_def io_to_emit_def list_all_iff)

lemma events_ok_io_emit:
  "events_ok st \<Longrightarrow> stamped_unless_error e \<Longrightarrow> events_ok (io_emit e st)"
  by (auto simp: events_ok_def io_emit_def list_all_iff)

lemma events_ok_outbox: "outbox st' = outbox st \<Longrightarrow> events_ok st' = events_ok st"
  by (simp add: events_ok_def)

lemma events_ok_on_connection: "events_ok st \<Longrightarrow> events_ok (on_connection now s st)"
  unfolding on_connection_def Let_def
  by (rule events_ok_socket_emit)
     (simp_all add: events_ok_def socket_join_def stamped_lit3)

lemma events_ok_handleRoomSubscription:
  assumes "events_ok st" shows "events_ok (handleRoomSubscription now s d st)"
  using handleRoomSubscription_cases[of now s d st]
proof (elim disjE exE conjE)
  fix msg assume "handleRoomSubscription now s d st = socket_emit s (error_event msg) st"
  then show ?thesis using assms by (simp add: events_ok_socket_emit stamped_error_event)
next
  fix r t
  assume "handleRoomSubscription now s d st =
        socket_emit s
          \<lparr>ev = ''subscribed'',
           args = obj_lit [(''room'', JStr r), (''type'', JStr t), (''timestamp'', JIso now)]\<rparr>
          (st\<lparr>rooms := Set_join r (sid s) (rooms st),
              roomSubscriptions := Set_join r (userId s) (roomSubscriptions st)\<rparr>)"
  moreover have "events_ok (st\<lparr>rooms := Set_join r (sid s) (rooms st),
              roomSubscriptions := Set_join r (userId s) (roomSubscriptions st)\<rparr>)"
    using assms by (simp add: events_ok_def)
  ultimately show ?thesis by (simp add: events_ok_socket_emit stamped_lit3)
qed

lemma events_ok_handleRoomUnsubscription:
  assumes "events_ok st" shows "events_ok (handleRoomUnsubscription now s d st)"
  using handleRoomUnsubscription_cases[of now s d st]
proof (elim disjE exE conjE)
  fix msg assume "handleRoomUnsubscription now s d st = socket_emit s (error_event msg) st"
  then show ?thesis using assms by (simp add: events_ok_socket_emit stamped_error_event)
next
  fix r
  assume "handleRoomUnsubscription now s d st =
        socket_emit s
          \<lparr>ev = ''unsubscribed'',
           args = obj_lit [(''room'', JStr r), (''timestamp'', JIso now)]\<rparr>
          (st\<lparr>rooms := Set_leave r (sid s) (rooms st),
              roomSubscriptions := Set_leave r (userId s) (roomSubscriptions st)\<rparr>)"
  moreover have "events_ok (st\<lparr>rooms := Set_leave r (sid s) (rooms st),
              roomSubscriptions := Set_leave r (userId s) (roomSubscriptions st)\<rparr>)"
    using assms by (simp add: events_ok_def)
  ultimately show ?thesis by (simp add: events_ok_socket_emit stamped_lit2)
qed

lemma events_ok_requests:
  assumes "events_ok st"
  shows "events_ok (handleParkingAvailabilityRequest now s d q st)"
    and "events_ok (handleBookingStatusRequest now s d q st)"
    and "events_ok (on_get_live_stats now s q' st)"
  using assms
  by (auto simp: handleParkingAvailabilityRequest_def handleBookingStatusRequest_def
      on_get_live_stats_def handleLiveStatsRequest_def
      split: option.splits db_reply.splits
      intro!: events_ok_socket_emit stamped_error_event stamped_lit2)

lemma events_ok_on_message: "events_ok st \<Longrightarrow> events_ok (on_message now s m st)"
  by (cases m) (simp_all add: events_ok_handleRoomSubscription events_ok_handleRoomUnsubscription
      events_ok_requests)

lemma events_ok_broadcasts:
  assumes "events_ok st"
  shows "events_ok (broadcastParkingUpdate now l d st)"
    and "events_ok (broadcastBookingUpdate now u b d st)"
    and "events_ok (broadcastPaymentUpdate now u b d st)"
    and "events_ok (broadcastNotification now u d st)"
    and "events_ok (broadcastSystemAnnouncement now m ty st)"
  using assms
  by (auto simp: broadcastParkingUpdate_def broadcastBookingUpdate_def
      broadcastPaymentUpdate_def broadcastNotification_def broadcastSystemAnnouncement_def
      notification_event_def Let_def
      intro!: events_ok_io_to_emit events_ok_io_emit stamped_lit3 stamped_lit1_app
        stamped_lit2_app stamped_obj)

lemma events_ok_step: "events_ok st \<Longrightarrow> events_ok (step verify a st)"
proof (cases a)
  case (Connect i hs now)
  assume a: "events_ok st"
  have "events_ok (socket_open s st)" for s
    using a by (simp add: events_ok_def socket_open_def)
  then show ?thesis using Connect a
    by (auto split: sum.splits intro: events_ok_on_connection)
next
  case (Inbound i m now)
  assume "events_ok st"
  then show ?thesis using Inbound
    by (auto split: option.splits intro: events_ok_on_message)
next
  case (Disconnect i)
  assume "events_ok st"
  then show ?thesis using Disconnect
    by (auto split: option.splits simp: events_ok_def on_disconnect_def socket_close_def)
next
  case Initialize
  assume "events_ok st"
  then show ?thesis using Initialize by (simp add: initializeWebSocket_def events_ok_def)
next
  case (StoreWrite tbl)
  assume "events_ok st"
  then show ?thesis using StoreWrite by (simp add: events_ok_def)
qed (simp_all add: events_ok_broadcasts)

lemma events_ok_fold: "events_ok st \<Longrightarrow> events_ok (fold (step verify) acts st)"
  by (induction acts arbitrary: st) (simp_all add: events_ok_step)

subsection \<open>The users table is read at admission only\<close>

lemma users_update_prims:
  "socket_emit s e (st\<lparr>users := tbl\<rparr>) = (socket_emit s e st)\<lparr>users := tbl\<rparr>"
  "socket_join s r (st\<lparr>users := tbl\<rparr>) = (socket_join s r st)\<lparr>users := tbl\<rparr>"
  "socket_leave s r (st\<lparr>users := tbl\<rparr>) = (socket_leave s r st)\<lparr>users := tbl\<rparr>"
  "io_to_emit r e (st\<lparr>users := tbl\<rparr>) = (io_to_emit r e st)\<lparr>users := tbl\<rparr>"
  "io_emit e (st\<lparr>users := tbl\<rparr>) = (io_emit e st)\<lparr>users := tbl\<rparr>"
  "socket_close s (st\<lparr>users := tbl\<rparr>) = (socket_close s st)\<lparr>users := tbl\<rparr>"
  "on_disconnect s (st\<lparr>users := tbl\<rparr>) = (on_disconnect s st)\<lparr>users := tbl\<rparr>"
  by (simp_all add: socket_emit_def socket_join_def socket_leave_def io_to_emit_def io_emit_def
      socket_close_def on_disconnect_def subscribers_of_def)

lemma users_update_subscribe:
  "handleRoomSubscription now s d (st\<lparr>users := tbl\<rparr>)
     = (handleRoomSubscription now s d st)\<lparr>users := tbl\<rparr>"
proof (cases "\<exists>r t. room d = Some r \<and> type d = Some t \<and> r \<noteq> [] \<and> t \<noteq> [] \<and>
                  (t = ''admin'' \<longrightarrow> userRole s = ''admin'')")
  case True
  then obtain r t where h: "room d = Some r" "type d = Some t" "r \<noteq> []" "t \<noteq> []"
    "t = ''admin'' \<longrightarrow> userRole s = ''admin''" by blast
  show ?thesis
    by (simp add: handleRoomSubscription_accepted[OF h] socket_emit_def)
next
  case False
  then show ?thesis
    by (auto simp: handleRoomSubscription_def users_update_prims split: option.splits)
qed

lemma users_update_unsubscribe:
  "handleRoomUnsubscription now s d (st\<lparr>users := tbl\<rparr>)
     = (handleRoomUnsubscription now s d st)\<lparr>users := tbl\<rparr>"
proof (cases "\<exists>r. room d = Some r \<and> r \<noteq> []")
  case True
  then obtain r where h: "room d = Some r" "r \<noteq> []" by blast
  have "handleRoomUnsubscription now s d st' =
        socket_emit s
          \<lparr>ev = ''unsubscribed'',
           args = obj_lit [(''room'', JStr r), (''timestamp'', JIso now)]\<rparr>
          (st'\<lparr>rooms := Set_leave r (sid s) (rooms st'),
              roomSubscriptions := Set_leave r (userId s) (roomSubscriptions st')\<rparr>)" for st'
    using h
    by (cases "Map_get r (roomSubscriptions st')")
       (simp_all add: handleRoomUnsubscription_def socket_leave_def Let_def Set_leave_def)
  then show ?thesis by (simp add: socket_emit_def)
next
  case False
  then show ?thesis
    by (auto simp: handleRoomUnsubscription_def users_update_prims split: option.splits)
qed

lemma users_update_on_message:
  "on_message now s m (st\<lparr>users := tbl\<rparr>) = (on_message now s m st)\<lparr>users := tbl\<rparr>"
  by (cases m)
     (auto simp: users_update_subscribe users_update_unsubscribe users_update_prims
        handleParkingAvailabilityRequest_def handleBookingStatusRequest_def
        on_get_live_stats_def handleLiveStatsRequest_def getLiveStatistics_def
        split: option.splits db_reply.splits)

lemma users_update_step:
  "store_free a \<Longrightarrow> step verify a (st\<lparr>users := tbl\<rparr>) = (step verify a st)\<lparr>users := tbl\<rparr>"
  by (cases a)
     (auto simp: users_update_on_message users_update_prims initializeWebSocket_def
        broadcastParkingUpdate_def broadcastBookingUpdate_def broadcastPaymentUpdate_def
        broadcastNotification_def broadcastSystemAnnouncement_def Let_def
        split: option.splits)

lemma users_update_fold:
  "list_all store_free acts \<Longrightarrow>
   fold (step verify) acts (st\<lparr>users := tbl\<rparr>) = (fold (step verify) acts st)\<lparr>users := tbl\<rparr>"
  by (induction acts arbitrary: st) (simp_all add: users_update_step)

subsection \<open>A connection stays in a room until it leaves it\<close>

lemma subscribers_of_socket_leave:
  "subscribers_of (socket_leave s r' st) r =
     (if r = r' then Set_delete (sid s) (subscribers_of st r) else subscribers_of st r)"
  by (cases "Map_get r' (rooms st)")
     (auto simp: subscribers_of_def socket_leave_def Set_leave_def Let_def Map_get_Map_set
        Map_get_Map_delete Set_delete_def)

lemma subscribers_of_rooms_update:
  "subscribers_of (st\<lparr>rooms := m\<rparr>) r = (case Map_get r m of None \<Rightarrow> [] | Some s \<Rightarrow> s)"
  by (simp add: subscribers_of_def)

lemma cleanup_rooms_keeps_member:
  "i \<noteq> x \<Longrightarrow> Map_get r m = Some s \<Longrightarrow> i \<in> set s \<Longrightarrow>
   \<exists>s'. Map_get r (cleanup_rooms x m) = Some s' \<and> i \<in> set s'"
proof (induction x m rule: cleanup_rooms.induct)
  case (1 u)
  then show ?case by (simp add: Map_get_def)
next
  case (2 u r0 s0 rest)
  show ?case
  proof (cases "r0 = r")
    case True
    then have "s0 = s" using 2(4) by (simp add: Map_get_def)
    then have "i \<in> set (Set_delete u s0)" using 2(3,5) by (simp add: in_Set_delete)
    then show ?thesis using True by (auto simp: Let_def Map_get_def)
  next
    case False
    then have "Map_get r rest = Some s" using 2(4) by (simp add: Map_get_def)
    then show ?thesis using 2 False by (auto simp: Let_def Map_get_def)
  qed
qed

lemma subscribers_of_socket_close_mono:
  assumes "i \<noteq> sid s" and "i \<in> set (subscribers_of st r)"
  shows "i \<in> set (subscribers_of (socket_close s st) r)"
proof -
  obtain m where m: "Map_get r (rooms st) = Some m" "i \<in> set m"
    using assms(2) by (cases "Map_get r (rooms st)") (auto simp: subscribers_of_def)
  then obtain m' where "Map_get r (cleanup_rooms (sid s) (rooms st)) = Some m'" "i \<in> set m'"
    using cleanup_rooms_keeps_member[OF assms(1) m] by blast
  then show ?thesis by (simp add: subscribers_of_def socket_close_def)
qed

lemma subscribers_of_on_disconnect [simp]:
  "subscribers_of (on_disconnect s st) r = subscribers_of st r"
  by (simp add: subscribers_of_def on_disconnect_def)

lemma subscribers_of_broadcasts [simp]:
  "subscribers_of (broadcastParkingUpdate now l d st) r = subscribers_of st r"
  "subscribers_of (broadcastBookingUpdate now u b d st) r = subscribers_of st r"
  "subscribers_of (broadcastPaymentUpdate now u b d st) r = subscribers_of st r"
  "subscribers_of (broadcastNotification now u d st) r = subscribers_of st r"
  "subscribers_of (broadcastSystemAnnouncement now m ty st) r = subscribers_of st r"
  by (simp_all add: broadcastParkingUpdate_def broadcastBookingUpdate_def
      broadcastPaymentUpdate_def broadcastNotification_def broadcastSystemAnnouncement_def
      Let_def io_to_emit_def io_emit_def subscribers_of_def)

lemma subscribers_of_subscribe_mono:
  assumes "i \<in> set (subscribers_of st r)"
  shows "i \<in> set (subscribers_of (handleRoomSubscription now s d st) r)"
  using handleRoomSubscription_cases[of now s d st] assms
  by (auto simp: subscribers_of_def socket_emit_def Map_get_Set_join in_Set_add
      split: option.splits)

lemma subscribers_of_unsubscribe_mono:
  assumes "i \<in> set (subscribers_of st r)" and "sid s \<noteq> i \<or> room d \<noteq> Some r"
  shows "i \<in> set (subscribers_of (handleRoomUnsubscription now s d st) r)"
  using handleRoomUnsubscription_cases[of now s d st]
proof (elim disjE exE conjE)
  fix msg assume "handleRoomUnsubscription now s d st = socket_emit s (error_event msg) st"
  then show ?thesis using assms(1) by simp
next
  fix r'
  assume r': "room d = Some r'"
    and e: "handleRoomUnsubscription now s d st =
        socket_emit s
          \<lparr>ev = ''unsubscribed'',
           args = obj_lit [(''room'', JStr r'), (''timestamp'', JIso now)]\<rparr>
          (st\<lparr>rooms := Set_leave r' (sid s) (rooms st),
              roomSubscriptions := Set_leave r' (userId s) (roomSubscriptions st)\<rparr>)"
  have "subscribers_of (handleRoomUnsubscription now s d st) r
      = subscribers_of (socket_leave s r' st) r"
    unfolding e by (simp add: subscribers_of_def socket_leave_def socket_emit_def)
  then show ?thesis using assms r'
    by (auto simp: subscribers_of_socket_leave in_Set_delete)
qed

lemma subscribers_of_requests [simp]:
  "subscribers_of (handleParkingAvailabilityRequest now s d q st) r = subscribers_of st r"
  "subscribers_of (handleBookingStatusRequest now s d q st) r = subscribers_of st r"
  "subscribers_of (on_get_live_stats now s q' st) r = subscribers_of st r"
  by (simp_all add: handleParkingAvailabilityRequest_def handleBookingStatusRequest_def
      on_get_live_stats_def handleLiveStatsRequest_def split: option.splits db_reply.splits)

lemma step_keeps_member:
  assumes "sockets_ok st" and "keeps_room i r a" and "i \<in> set (subscribers_of st r)"
  shows "i \<in> set (subscribers_of (step verify a st) r)"
proof (cases a)
  case (Connect j hs now)
  then show ?thesis using assms(3)
    by (auto split: sum.splits intro: subscribers_of_admission_mono)
next
  case (Inbound j m now)
  show ?thesis
  proof (cases "Map_get j (sockets st)")
    case None
    then show ?thesis using Inbound assms(3) by simp
  next
    case (Some s)
    then have sj: "sid s = j" using assms(1) by (rule sockets_ok_sid[rotated])
    show ?thesis
    proof (cases m)
      case (Subscribe d)
      then show ?thesis using Inbound Some assms(3) by (simp add: subscribers_of_subscribe_mono)
    next
      case (Unsubscribe d)
      then have "sid s \<noteq> i \<or> room d \<noteq> Some r" using assms(2) Inbound sj by simp
      then show ?thesis using Inbound Some Unsubscribe assms(3)
        by (simp add: subscribers_of_unsubscribe_mono)
    qed (use Inbound Some assms(3) in simp_all)
  qed
next
  case (Disconnect j)
  show ?thesis
  proof (cases "Map_get j (sockets st)")
    case None
    then show ?thesis using Disconnect assms(3) by simp
  next
    case (Some s)
    then have "sid s = j" using assms(1) by (rule sockets_ok_sid[rotated])
    then have "i \<noteq> sid s" using assms(2) Disconnect by auto
    then show ?thesis using Disconnect Some assms(3)
      by (simp add: subscribers_of_socket_close_mono)
  qed
next
  case Initialize
  then show ?thesis using assms(3) by (simp add: initializeWebSocket_def subscribers_of_def)
next
  case (StoreWrite tbl)
  then show ?thesis using assms(3) by (simp add: subscribers_of_def)
qed (use assms(3) in simp_all)

lemma keeps_room_no_disconnect: "list_all (keeps_room i r) acts \<Longrightarrow> Disconnect i \<notin> set acts"
  by (induction acts) auto

lemma fold_keeps_member:
  "sockets_ok st \<Longrightarrow> list_all (keeps_room i r) acts \<Longrightarrow> i \<in> set (subscribers_of st r) \<Longrightarrow>
   i \<in> set (subscribers_of (fold (step verify) acts st) r)"
proof (induction acts arbitrary: st)
  case Nil
  then show ?case by simp
next
  case (Cons a acts)
  have "i \<in> set (subscribers_of (step verify a st) r)"
    using Cons.prems by (intro step_keeps_member) simp_all
  moreover have "sockets_ok (step verify a st)" using Cons.prems(1) by (rule sockets_ok_step)
  ultimately show ?case using Cons.IH[of "step verify a st"] Cons.prems(2) by simp
qed

lemma at_most_one_entry:
  "distinct (map fst m) \<Longrightarrow> length (filter (\<lambda>e. fst e = k) m) \<le> 1"
proof (induction m)
  case Nil
  then show ?case by simp
next
  case (Cons e m)
  show ?case
  proof (cases "fst e = k")
    case True
    then have "k \<notin> fst ` set m" using Cons.prems by auto
    then have "filter (\<lambda>e. fst e = k) m = []" by (auto simp: filter_empty_conv)
    then show ?thesis using True by simp
  next
    case False
    then show ?thesis using Cons by simp
  qed
qed

lemma count_list_distinct: "distinct xs \<Longrightarrow> count_list xs x = (if x \<in> set xs then 1 else 0)"
  by (induction xs) auto

section \<open>The registry and the fan-out to a subject\<close>

text \<open>
  Claim C1, as stated, fails in both halves. \<^verbatim>\<open>connectedUsers\<close> is keyed by the subject
  id, so the entry of a subject's second connection replaces that of the first: with two
  live connections of subject \<^verbatim>\<open>u1\<close> the registry holds one entry, which names the
  second socket, and the first live connection has none. And the fan-out goes to the
  members of the room \<^verbatim>\<open>user:u1\<close>, which a connection may leave: after the first
  connection unsubscribed from that room, both connections are still live and a
  notification for \<^verbatim>\<open>u1\<close> reaches the second only.
\<close>

theorem registry_entry_overwritten:
  "map fst (sockets two_devices) = [''s1'', ''s2''] \<and>
   map userId (map snd (sockets two_devices)) = [''u1'', ''u1''] \<and>
   \<not> list_all (registered two_devices) (map snd (sockets two_devices)) \<and>
   map (\<lambda>e. (fst e, socketId (snd e))) (connectedUsers two_devices) = [(''u1'', ''s2'')] \<and>
   map fst (sockets (run token_is_id [Inbound ''s1'' (Unsubscribe leave_own_room) 3] two_devices))
     = [''s1'', ''s2''] \<and>
   map ev (queue_of (run token_is_id
       [Inbound ''s1'' (Unsubscribe leave_own_room) 3,
        Notification ''u1'' [(''title'', JStr ''hello'')] 4] two_devices) ''s1'')
     = [''connected'', ''unsubscribed''] \<and>
   map ev (queue_of (run token_is_id
       [Inbound ''s1'' (Unsubscribe leave_own_room) 3,
        Notification ''u1'' [(''title'', JStr ''hello'')] 4] two_devices) ''s2'')
     = [''connected'', ''notification'']"
  by code_simp

text \<open>
  Claim C1, amended. In every state the service reaches, the registry holds at most one
  entry for a subject, however many live connections the subject has. On a running
  server \<^verbatim>\<open>broadcastNotification\<close> for a subject appends the notification event, once, to
  the outbound queue of each connection in the room \<^verbatim>\<open>user:<subject>\<close>, and leaves every
  other queue as it is. An admission makes the subject's registry entry that of the
  admitted connection, so that no other connection of the subject has an entry; and the
  admitted connection stays live and in the room of its subject through every later
  sequence of steps that holds neither its disconnect nor its own unsubscribe from that
  room. Two live connections of a subject that have not left the subject's room are
  therefore both sent the event.
\<close>

theorem registry_by_subject_fan_out_by_room:
  assumes "st = run verify pre init_state"
  shows "length (filter (\<lambda>e. fst e = u) (connectedUsers st)) \<le> 1 \<and>
    (io st \<longrightarrow>
       queue_of (broadcastNotification now u n st) i =
         queue_of st i @ (if i \<in> set (subscribers_of st (''user:'' @ u))
                          then [notification_event now n] else [])) \<and>
    (io st \<and> \<not> Map_has j (sockets st) \<and> authenticate verify st j hs = Inr s \<longrightarrow>
       registered (step verify (Connect j hs t) st) s \<and>
       (userId s' = userId s \<and> sid s' \<noteq> j \<longrightarrow>
          \<not> registered (step verify (Connect j hs t) st) s') \<and>
       (list_all (keeps_room j (''user:'' @ userId s)) post \<longrightarrow>
          Map_get j (sockets (run verify (Connect j hs t # post) st)) = Some s \<and>
          j \<in> set (subscribers_of (run verify (Connect j hs t # post) st)
                     (''user:'' @ userId s))))"
proof -
  have iok: "index_ok st" unfolding assms by (rule index_ok_run)
  have rok: "registry_ok st" unfolding assms by (rule registry_ok_run)
  have sok: "sockets_ok st" unfolding assms by (rule sockets_ok_run)
  have a: "length (filter (\<lambda>e. fst e = u) (connectedUsers st)) \<le> 1"
    using rok unfolding registry_ok_def by (rule at_most_one_entry)
  have b: "queue_of (broadcastNotification now u n st) i =
         queue_of st i @ (if i \<in> set (subscribers_of st (''user:'' @ u))
                          then [notification_event now n] else [])" if "io st"
    using that distinct_subscribers_of[OF iok, of "''user:'' @ u"]
    by (simp add: broadcastNotification_def queue_of_io_to_emit count_list_distinct)
  have c: "registered (step verify (Connect j hs t) st) s \<and>
       (userId s' = userId s \<and> sid s' \<noteq> j \<longrightarrow>
          \<not> registered (step verify (Connect j hs t) st) s') \<and>
       (list_all (keeps_room j (''user:'' @ userId s)) post \<longrightarrow>
          Map_get j (sockets (run verify (Connect j hs t # post) st)) = Some s \<and>
          j \<in> set (subscribers_of (run verify (Connect j hs t # post) st)
                     (''user:'' @ userId s)))"
    if h: "io st" "\<not> Map_has j (sockets st)" "authenticate verify st j hs = Inr s"
  proof -
    let ?st1 = "on_connection t s (socket_open s st)"
    have sj: "sid s = j" using h(3) by (rule authenticate_sid)
    have e: "step verify (Connect j hs t) st = ?st1" using h by simp
    have reg: "Map_get (userId s) (connectedUsers ?st1)
        = Some \<lparr>socketId = sid s, connectedAt = t, role = userRole s\<rparr>"
      by (simp add: connectedUsers_admission Map_get_Map_set)
    have c1: "registered ?st1 s" using reg by (simp add: registered_def)
    have c2: "\<not> registered ?st1 s'" if "userId s' = userId s" "sid s' \<noteq> j"
      using reg that sj by (simp add: registered_def)
    have ok1: "sockets_ok ?st1" using sockets_ok_step[OF sok, of verify "Connect j hs t"] e by simp
    have live1: "Map_get j (sockets ?st1) = Some s"
      using sj by (simp add: socket_open_def Map_get_Map_set)
    have mem1: "j \<in> set (subscribers_of ?st1 (''user:'' @ userId s))"
      using subscribers_of_admission_own[of s t st] sj by simp
    have c3: "Map_get j (sockets (run verify (Connect j hs t # post) st)) = Some s \<and>
          j \<in> set (subscribers_of (run verify (Connect j hs t # post) st)
                     (''user:'' @ userId s))"
      if k: "list_all (keeps_room j (''user:'' @ userId s)) post"
    proof -
      have r: "run verify (Connect j hs t # post) st = fold (step verify) post ?st1"
        using e by (simp add: run_def)
      have "Disconnect j \<notin> set post" using k by (rule keeps_room_no_disconnect)
      then have l: "Map_get j (sockets (fold (step verify) post ?st1)) = Some s"
        using ok1 live1 by (intro fold_keeps_socket)
      have m: "j \<in> set (subscribers_of (fold (step verify) post ?st1) (''user:'' @ userId s))"
        using ok1 k mem1 by (rule fold_keeps_member)
      show ?thesis using l m by (simp add: r)
    qed
    show ?thesis unfolding e using c1 c2 c3 by blast
  qed
  show ?thesis using a b c by blast
qed

theorem registry_by_subject_fan_out_by_room_witness:
  "io two_devices \<and>
   ''s1'' \<in> set (subscribers_of two_devices ''user:u1'') \<and>
   ''s2'' \<in> set (subscribers_of two_devices ''user:u1'') \<and>
   length (filter (\<lambda>e. fst e = ''u1'') (connectedUsers two_devices)) \<le> 1 \<and>
   queue_of (broadcastNotification 9 ''u1'' [(''title'', JStr ''hello'')] two_devices) ''s1''
     = queue_of two_devices ''s1'' @ [notification_event 9 [(''title'', JStr ''hello'')]] \<and>
   queue_of (broadcastNotification 9 ''u1'' [(''title'', JStr ''hello'')] two_devices) ''s2''
     = queue_of two_devices ''s2'' @ [notification_event 9 [(''title'', JStr ''hello'')]] \<and>
   io alice_online \<and> \<not> Map_has ''s2'' (sockets alice_online) \<and>
   authenticate token_is_id alice_online ''s2'' (bearer ''u1'') = Inr (alice ''s2'') \<and>
   userId (alice ''s1'') = userId (alice ''s2'') \<and> sid (alice ''s1'') \<noteq> ''s2'' \<and>
   list_all (keeps_room ''s2'' (''user:'' @ userId (alice ''s2'')))
     [Inbound ''s1'' (Unsubscribe leave_own_room) 3, Inbound ''s2'' (Subscribe example_lot) 4] \<and>
   registered (step token_is_id (Connect ''s2'' (bearer ''u1'') 2) alice_online) (alice ''s2'') \<and>
   \<not> registered (step token_is_id (Connect ''s2'' (bearer ''u1'') 2) alice_online) (alice ''s1'') \<and>
   Map_get ''s2'' (sockets (run token_is_id
      [Connect ''s2'' (bearer ''u1'') 2, Inbound ''s1'' (Unsubscribe leave_own_room) 3,
       Inbound ''s2'' (Subscribe example_lot) 4] alice_online)) = Some (alice ''s2'') \<and>
   ''s2'' \<in> set (subscribers_of (run token_is_id
      [Connect ''s2'' (bearer ''u1'') 2, Inbound ''s1'' (Unsubscribe leave_own_room) 3,
       Inbound ''s2'' (Subscribe example_lot) 4] alice_online) (''user:'' @ userId (alice ''s2'')))"
proof -
  have p2: "two_devices = run token_is_id
      [StoreWrite example_users, Initialize, Connect ''s1'' (bearer ''u1'') 1,
       Connect ''s2'' (bearer ''u1'') 2] init_state"
    by (simp add: two_devices_def started_def run_def)
  have p1: "alice_online = run token_is_id
      [StoreWrite example_users, Initialize, Connect ''s1'' (bearer ''u1'') 1] init_state"
    by (simp add: alice_online_def started_def run_def)
  have io2: "io two_devices" by code_simp
  have m1: "''s1'' \<in> set (subscribers_of two_devices (''user:'' @ ''u1''))" by code_simp
  have m2: "''s2'' \<in> set (subscribers_of two_devices (''user:'' @ ''u1''))" by code_simp
  note A = registry_by_subject_fan_out_by_room [OF p2, where u = "''u1''" and now = 9
      and n = "[(''title'', JStr ''hello'')]" and i = "''s1''"]
  note B = registry_by_subject_fan_out_by_room [OF p2, where u = "''u1''" and now = 9
      and n = "[(''title'', JStr ''hello'')]" and i = "''s2''"]
  have one: "length (filter (\<lambda>e. fst e = ''u1'') (connectedUsers two_devices)) \<le> 1"
    using A by blast
  have q1: "queue_of (broadcastNotification 9 ''u1'' [(''title'', JStr ''hello'')] two_devices) ''s1''
     = queue_of two_devices ''s1'' @ [notification_event 9 [(''title'', JStr ''hello'')]]"
    using A io2 m1 by simp
  have q2: "queue_of (broadcastNotification 9 ''u1'' [(''title'', JStr ''hello'')] two_devices) ''s2''
     = queue_of two_devices ''s2'' @ [notification_event 9 [(''title'', JStr ''hello'')]]"
    using B io2 m2 by simp
  have h: "io alice_online \<and> \<not> Map_has ''s2'' (sockets alice_online) \<and>
     authenticate token_is_id alice_online ''s2'' (bearer ''u1'') = Inr (alice ''s2'')"
    by code_simp
  have o: "userId (alice ''s1'') = userId (alice ''s2'') \<and> sid (alice ''s1'') \<noteq> ''s2''"
    by (simp add: alice_def)
  have k: "list_all (keeps_room ''s2'' (''user:'' @ userId (alice ''s2'')))
     [Inbound ''s1'' (Unsubscribe leave_own_room) 3, Inbound ''s2'' (Subscribe example_lot) 4]"
    by simp
  note C = registry_by_subject_fan_out_by_room [OF p1, where j = "''s2''" and hs = "bearer ''u1''"
      and s = "alice ''s2''" and s' = "alice ''s1''" and t = 2
      and post = "[Inbound ''s1'' (Unsubscribe leave_own_room) 3,
                   Inbound ''s2'' (Subscribe example_lot) 4]"]
  have r: "registered (step token_is_id (Connect ''s2'' (bearer ''u1'') 2) alice_online) (alice ''s2'') \<and>
   \<not> registered (step token_is_id (Connect ''s2'' (bearer ''u1'') 2) alice_online) (alice ''s1'') \<and>
   Map_get ''s2'' (sockets (run token_is_id
      [Connect ''s2'' (bearer ''u1'') 2, Inbound ''s1'' (Unsubscribe leave_own_room) 3,
       Inbound ''s2'' (Subscribe example_lot) 4] alice_online)) = Some (alice ''s2'') \<and>
   ''s2'' \<in> set (subscribers_of (run token_is_id
      [Connect ''s2'' (bearer ''u1'') 2, Inbound ''s1'' (Unsubscribe leave_own_room) 3,
       Inbound ''s2'' (Subscribe example_lot) 4] alice_online) (''user:'' @ userId (alice ''s2'')))"
    using C h o k by blast
  show ?thesis using io2 m1 m2 one q1 q2 h o k r by simp
qed

section \<open>Role gating of subscriptions\<close>

text \<open>
  Claim C2: what the code does at the failing input. The permission check of
  \<^verbatim>\<open>handleRoomSubscription\<close> looks at the \<^verbatim>\<open>type\<close> the client sent, not at the room. A
  connected user whose cached role is \<^verbatim>\<open>user\<close> subscribes to the room \<^verbatim>\<open>admin\<close> with type
  \<^verbatim>\<open>parking\<close>: the admin room, empty before, now holds the connection, the client gets
  a \<^verbatim>\<open>subscribed\<close> acknowledgement and no \<^verbatim>\<open>error\<close> event, and the next booking update
  of another subject, sent to the admins, is delivered to it.
\<close>

theorem non_admin_joins_admin_room:
  "Map_get ''s1'' (sockets alice_online) = Some (alice ''s1'') \<and>
   userRole (alice ''s1'') \<noteq> ''admin'' \<and>
   subscribers_of alice_online ''admin'' = [] \<and>
   subscribers_of (run token_is_id [Inbound ''s1'' (Subscribe admin_as_parking) 2] alice_online)
     ''admin'' = [''s1''] \<and>
   map ev (queue_of (run token_is_id
       [Inbound ''s1'' (Subscribe admin_as_parking) 2,
        BookingUpdate ''a1'' (JNum 7) [(''status'', JStr ''confirmed'')] 3] alice_online) ''s1'')
     = [''connected'', ''subscribed'', ''booking_updated'']"
  by code_simp

section \<open>Admission\<close>

text \<open>
  Claim C3. The dispatcher resolves a topic through the rooms of the socket.io adapter
  (\<^verbatim>\<open>io.to(room)\<close>), so \<open>subscribers_of\<close> reads those rooms; the subject topic of the
  spec is the room \<^verbatim>\<open>user:<userId>\<close> and the admin topic is the room \<^verbatim>\<open>admin\<close>. When a
  handshake passes the middleware, the state right after the connection listener has the
  new connection in the room of its own subject and, if its role is \<^verbatim>\<open>admin\<close>, in the
  admin room.
\<close>

theorem admitted_connection_in_own_topics:
  assumes "io st" and "\<not> Map_has i (sockets st)"
    and "authenticate verify st i hs = Inr s"
    and "st' = step verify (Connect i hs now) st"
  shows "sid s = i \<and> Map_get i (sockets st') = Some s \<and>
         i \<in> set (subscribers_of st' (''user:'' @ userId s)) \<and>
         (userRole s = ''admin'' \<longrightarrow> i \<in> set (subscribers_of st' ''admin''))"
proof -
  have i: "sid s = i"
    using assms(3)
    by (auto simp: authenticate_def Let_def split: if_splits option.splits)
  have e: "st' = on_connection now s (socket_open s st)"
    using assms by simp
  have l: "Map_get i (sockets st') = Some s"
    unfolding e using i
    by (simp add: on_connection_def Let_def socket_emit_def socket_join_def socket_open_def
        Map_get_Map_set)
  have u: "i \<in> set (subscribers_of st' (''user:'' @ userId s))"
    unfolding e using i
    by (simp add: on_connection_def Let_def subscribers_of_socket_join in_Set_add)
  have a: "i \<in> set (subscribers_of st' ''admin'')" if "userRole s = ''admin''"
    unfolding e using i that
    by (simp add: on_connection_def Let_def subscribers_of_socket_join in_Set_add)
  show ?thesis using i l u a by simp
qed

theorem admitted_connection_in_own_topics_witness:
  "io started \<and> \<not> Map_has ''s9'' (sockets started) \<and>
   authenticate token_is_id started ''s9'' (bearer ''a1'') = Inr (root ''s9'') \<and>
   userRole (root ''s9'') = ''admin'' \<and>
   ''s9'' \<in> set (subscribers_of (step token_is_id (Connect ''s9'' (bearer ''a1'') 4) started)
                  ''user:a1'') \<and>
   ''s9'' \<in> set (subscribers_of (step token_is_id (Connect ''s9'' (bearer ''a1'') 4) started)
                  ''admin'')"
proof -
  have a: "io started" by code_simp
  have b: "\<not> Map_has ''s9'' (sockets started)" by code_simp
  have c: "authenticate token_is_id started ''s9'' (bearer ''a1'') = Inr (root ''s9'')"
    by code_simp
  have r: "userRole (root ''s9'') = ''admin''" "userId (root ''s9'') = ''a1''"
    by (simp_all add: root_def)
  show ?thesis
    using a b c r admitted_connection_in_own_topics [OF a b c refl, of 4]
    by simp
qed

section \<open>Outbound events\<close>

text \<open>
  Claim C4, as stated, fails. A connected user sends a subscribe message without a room:
  the service answers with an \<^verbatim>\<open>error\<close> event, whose payload is \<^verbatim>\<open>{ message }\<close> and
  has no timestamp.
\<close>

theorem error_event_without_timestamp:
  "\<not> list_all has_timestamp (map snd (outbox (run token_is_id
       [StoreWrite example_users, Initialize, Connect ''s1'' (bearer ''u1'') 1,
        Inbound ''s1'' (Subscribe no_room) 2] init_state)))"
  by code_simp

text \<open>
  Claim C4, amended. Of the events the service emits in any run from its initial state,
  every event other than \<^verbatim>\<open>error\<close> carries a \<^verbatim>\<open>timestamp\<close> property holding the ISO
  string of the instant of emission (it is assigned last, so no spread payload overrides
  it), and every \<^verbatim>\<open>error\<close> event carries a \<^verbatim>\<open>message\<close> and nothing else.
\<close>

theorem outbound_events_stamped_unless_error:
  "list_all stamped_unless_error (map snd (outbox (run verify acts init_state)))"
proof -
  have "events_ok init_state" by (simp add: events_ok_def init_state_def)
  then have "events_ok (run verify acts init_state)"
    unfolding run_def by (rule events_ok_fold)
  then show ?thesis by (simp add: events_ok_def)
qed

theorem outbound_events_stamped_unless_error_witness:
  "map (\<lambda>e. (ev e, map fst (args e))) (map snd (outbox (run token_is_id
       [StoreWrite example_users, Initialize, Connect ''s1'' (bearer ''u1'') 1,
        Inbound ''s1'' (Subscribe no_room) 2] init_state)))
     = [(''connected'', [''message'', ''userId'', ''timestamp'']), (''error'', [''message''])] \<and>
   list_all stamped_unless_error (map snd (outbox (run token_is_id
       [StoreWrite example_users, Initialize, Connect ''s1'' (bearer ''u1'') 1,
        Inbound ''s1'' (Subscribe no_room) 2] init_state)))"
proof -
  have "map (\<lambda>e. (ev e, map fst (args e))) (map snd (outbox (run token_is_id
       [StoreWrite example_users, Initialize, Connect ''s1'' (bearer ''u1'') 1,
        Inbound ''s1'' (Subscribe no_room) 2] init_state)))
     = [(''connected'', [''message'', ''userId'', ''timestamp'']), (''error'', [''message''])]"
    by code_simp
  then show ?thesis
    using outbound_events_stamped_unless_error [of token_is_id
       "[StoreWrite example_users, Initialize, Connect ''s1'' (bearer ''u1'') 1,
        Inbound ''s1'' (Subscribe no_room) 2]"]
    by simp
qed

section \<open>Disconnect cleanup\<close>




section \<open>The subscription index\<close>



text \<open>
  Claim C7. Two accepted subscribe messages of one connection for one room, in a state
  the service can reach: the room then lists the connection once in the adapter and its
  subject once in \<^verbatim>\<open>roomSubscriptions\<close>, and the second message changes neither Map.
\<close>

theorem subscribe_twice_one_membership:
  assumes "st = run verify acts init_state"
    and "room d = Some r" and "type d = Some t" and "r \<noteq> []" and "t \<noteq> []"
    and "t = ''admin'' \<longrightarrow> userRole s = ''admin''"
    and "st1 = handleRoomSubscription n1 s d st"
    and "st2 = handleRoomSubscription n2 s d st1"
  shows "count_list (subscribers_of st2 r) (sid s) = 1 \<and>
         count_list (tracked_subscribers st2 r) (userId s) = 1 \<and>
         rooms st2 = rooms st1 \<and> roomSubscriptions st2 = roomSubscriptions st1"
proof -
  have ok: "index_ok st" using assms(1) index_ok_run by simp
  have e1: "st1 = socket_emit s
          \<lparr>ev = ''subscribed'',
           args = obj_lit [(''room'', JStr r), (''type'', JStr t), (''timestamp'', JIso n1)]\<rparr>
          (st\<lparr>rooms := Set_join r (sid s) (rooms st),
              roomSubscriptions := Set_join r (userId s) (roomSubscriptions st)\<rparr>)"
    unfolding assms(7) using assms(2-6) by (rule handleRoomSubscription_accepted)
  have e2: "st2 = socket_emit s
          \<lparr>ev = ''subscribed'',
           args = obj_lit [(''room'', JStr r), (''type'', JStr t), (''timestamp'', JIso n2)]\<rparr>
          (st1\<lparr>rooms := Set_join r (sid s) (rooms st1),
              roomSubscriptions := Set_join r (userId s) (roomSubscriptions st1)\<rparr>)"
    unfolding assms(8) using assms(2-6) by (rule handleRoomSubscription_accepted)
  have r1: "rooms st1 = Set_join r (sid s) (rooms st)"
    and t1: "roomSubscriptions st1 = Set_join r (userId s) (roomSubscriptions st)"
    using e1 by (simp_all add: socket_emit_def)
  have r2: "rooms st2 = rooms st1" and t2: "roomSubscriptions st2 = roomSubscriptions st1"
    using e2 r1 t1 by (simp_all add: socket_emit_def Set_join_idem)
  have d1: "distinct (case Map_get r (rooms st) of None \<Rightarrow> [] | Some s \<Rightarrow> s)"
    using ok by (simp add: index_ok_def sets_ok_lookup)
  have d2: "distinct (case Map_get r (roomSubscriptions st) of None \<Rightarrow> [] | Some s \<Rightarrow> s)"
    using ok by (simp add: index_ok_def sets_ok_lookup)
  have c1: "count_list (subscribers_of st2 r) (sid s) = 1"
    using d1 by (simp add: subscribers_of_def r2 r1 Map_get_Set_join count_list_Set_add)
  have c2: "count_list (tracked_subscribers st2 r) (userId s) = 1"
    using d2 by (simp add: tracked_subscribers_def t2 t1 Map_get_Set_join count_list_Set_add)
  show ?thesis using c1 c2 r2 t2 by simp
qed

theorem subscribe_twice_one_membership_witness:
  "room example_lot = Some ''parking_lot:42'' \<and> type example_lot = Some ''parking'' \<and>
   count_list (subscribers_of
     (handleRoomSubscription 3 (alice ''s1'') example_lot
        (handleRoomSubscription 2 (alice ''s1'') example_lot alice_online)) ''parking_lot:42'')
     ''s1'' = 1 \<and>
   count_list (tracked_subscribers
     (handleRoomSubscription 3 (alice ''s1'') example_lot
        (handleRoomSubscription 2 (alice ''s1'') example_lot alice_online)) ''parking_lot:42'')
     ''u1'' = 1"
proof -
  have h: "room example_lot = Some ''parking_lot:42''" "type example_lot = Some ''parking''"
    by (simp_all add: example_lot_def)
  have a: "alice_online = run token_is_id
      [StoreWrite example_users, Initialize, Connect ''s1'' (bearer ''u1'') 1] init_state"
    by (simp add: alice_online_def started_def run_def)
  have n: "''parking_lot:42'' \<noteq> []" "''parking'' \<noteq> []"
    "''parking'' = ''admin'' \<longrightarrow> userRole (alice ''s1'') = ''admin''" by simp_all
  have u: "userId (alice ''s1'') = ''u1''" "sid (alice ''s1'') = ''s1''" by (simp_all add: alice_def)
  show ?thesis
    using h u subscribe_twice_one_membership [OF a h n refl refl, of 3 2]
    by simp
qed

section \<open>The role cached at connect time\<close>

text \<open>
  Claim C8: what the code does at the failing input. A connected user with the cached
  role \<^verbatim>\<open>user\<close> is made an administrator in the users table. The change leaves the
  admin room empty and the socket's cached role as it was. The connection, still
  connected, then subscribes to the room \<^verbatim>\<open>admin\<close> with type \<^verbatim>\<open>parking\<close>: the check of
  \<^verbatim>\<open>handleRoomSubscription\<close> looks at the type only, so the connection is now in the
  admin room without having reconnected, and the next booking update sent to the admins
  is delivered to it. This is the defect of claim C2.
\<close>

theorem promoted_user_joins_admin_room:
  "Map_get ''s1'' (sockets alice_online) = Some (alice ''s1'') \<and>
   userRole (alice ''s1'') = ''user'' \<and>
   subscribers_of (run token_is_id [StoreWrite promoted_users] alice_online) ''admin'' = [] \<and>
   Map_get ''s1'' (sockets (run token_is_id
       [StoreWrite promoted_users, Inbound ''s1'' (Subscribe admin_as_parking) 5] alice_online))
     = Some (alice ''s1'') \<and>
   subscribers_of (run token_is_id
       [StoreWrite promoted_users, Inbound ''s1'' (Subscribe admin_as_parking) 5] alice_online)
     ''admin'' = [''s1''] \<and>
   map ev (queue_of (run token_is_id
       [StoreWrite promoted_users, Inbound ''s1'' (Subscribe admin_as_parking) 5,
        BookingUpdate ''a1'' (JNum 7) [(''status'', JStr ''confirmed'')] 6] alice_online) ''s1'')
     = [''connected'', ''subscribed'', ''booking_updated'']"
  by code_simp

text \<open>
  What does hold of the role cached at connect time. Let a connection with a cached role
  other than \<^verbatim>\<open>admin\<close> be live in a state the service reached, and let the users table
  change in any way. The change itself leaves the sockets with their cached roles, the
  rooms, the registry and the tracked subscriptions as they are. As long as the
  connection is not disconnected it keeps its socket record, cached role included,
  whatever happens next. Any sequence of messages, disconnects and broadcasts runs
  exactly as it would have run without the change. A \<^verbatim>\<open>get_live_stats\<close> is dropped and
  a subscribe of type \<^verbatim>\<open>admin\<close> is answered with an error event and no other effect.
  Once the connection is closed and the subject connects again, the middleware reads the
  role \<^verbatim>\<open>admin\<close> from the table and the new connection is in the admin room.
\<close>

theorem role_fixed_at_connect_time:
  assumes "st = run verify pre init_state"
    and "Map_get i (sockets st) = Some s" and "userRole s \<noteq> ''admin''"
    and "st' = step verify (StoreWrite tbl) st"
  shows "sockets st' = sockets st \<and> rooms st' = rooms st \<and>
         connectedUsers st' = connectedUsers st \<and>
         roomSubscriptions st' = roomSubscriptions st \<and>
         (Disconnect i \<notin> set acts \<longrightarrow> Map_get i (sockets (run verify acts st')) = Some s) \<and>
         (list_all store_free acts \<longrightarrow>
            run verify acts st' = (run verify acts st)\<lparr>users := tbl\<rparr>) \<and>
         step verify (Inbound i (GetLiveStats q) n1) st' = st' \<and>
         (type d = Some ''admin'' \<longrightarrow>
            (\<exists>msg. step verify (Inbound i (Subscribe d) n2) st'
                     = socket_emit s (error_event msg) st')) \<and>
         (io st \<and> \<not> Map_has j (sockets st) \<and> handshake_token hs = Some tok \<and> tok \<noteq> [] \<and>
          verify tok = Some (Some (userId s)) \<and> single_user (userId s) tbl = Some row \<and>
          user_role row = ''admin'' \<longrightarrow>
            j \<in> set (subscribers_of (run verify [Disconnect i, Connect j hs n3] st') ''admin''))"
proof -
  have st': "st' = st\<lparr>users := tbl\<rparr>" using assms(4) by simp
  have live: "Map_get i (sockets st') = Some s" using assms(2) by (simp add: st')
  have ok: "sockets_ok st'"
    using sockets_ok_run[of verify "pre @ [StoreWrite tbl]"] assms(1,4) by (simp add: run_def)
  have a: "Map_get i (sockets (run verify acts st')) = Some s" if "Disconnect i \<notin> set acts"
    unfolding run_def using ok that live by (rule fold_keeps_socket)
  have b: "run verify acts st' = (run verify acts st)\<lparr>users := tbl\<rparr>"
    if "list_all store_free acts"
    unfolding run_def st' using that by (rule users_update_fold)
  have c: "step verify (Inbound i (GetLiveStats q) n1) st' = st'"
    using live assms(3) by (simp add: on_get_live_stats_def)
  have d: "\<exists>msg. step verify (Inbound i (Subscribe d) n2) st' = socket_emit s (error_event msg) st'"
    if "type d = Some ''admin''"
    using live subscribe_admin_type_rejected[OF assms(3) that, of n2 st'] by simp
  have e: "j \<in> set (subscribers_of (run verify [Disconnect i, Connect j hs n3] st') ''admin'')"
    if h: "io st" "\<not> Map_has j (sockets st)" "handshake_token hs = Some tok" "tok \<noteq> []"
      "verify tok = Some (Some (userId s))" "single_user (userId s) tbl = Some row"
      "user_role row = ''admin''"
  proof -
    let ?st2 = "on_disconnect s (socket_close s st')"
    let ?new = "\<lparr>sid = j, userId = user_id row, userRole = user_role row,
                userEmail = user_email row, userName = user_name row\<rparr>"
    have s2: "step verify (Disconnect i) st' = ?st2" using live by simp
    have io2: "io ?st2" using h(1) by (simp add: on_disconnect_def socket_close_def st')
    have fresh: "\<not> Map_has j (sockets ?st2)"
      using h(2)
      by (simp add: on_disconnect_def socket_close_def st' Map_has_def Map_get_Map_delete)
    have "users ?st2 = tbl" by (simp add: on_disconnect_def socket_close_def st')
    then have au: "authenticate verify ?st2 j hs = Inr ?new"
      using h(3,4,5,6) by (intro authenticate_found) simp_all
    have "step verify (Connect j hs n3) ?st2 = on_connection n3 ?new (socket_open ?new ?st2)"
      using io2 fresh au by simp
    moreover have "sid ?new \<in> set (subscribers_of (on_connection n3 ?new (socket_open ?new ?st2)) ''admin'')"
      using h(7) by (intro subscribers_of_admission_admin) simp
    ultimately show ?thesis using s2 by (simp add: run_def)
  qed
  show ?thesis using a b c d e by (simp add: st')
qed

theorem role_fixed_at_connect_time_witness:
  "Map_get ''s1'' (sockets alice_online) = Some (alice ''s1'') \<and>
   userRole (alice ''s1'') \<noteq> ''admin'' \<and>
   single_user ''u1'' promoted_users
     = Some \<lparr>user_id = ''u1'', user_name = ''Alice'', user_email = ''alice@example.org'',
             user_role = ''admin''\<rparr> \<and>
   Map_get ''s1'' (sockets (run token_is_id
       [Inbound ''s1'' (Subscribe admin_room) 5, Inbound ''s1'' (GetLiveStats None) 6]
       (step token_is_id (StoreWrite promoted_users) alice_online))) = Some (alice ''s1'') \<and>
   subscribers_of (run token_is_id
       [Inbound ''s1'' (Subscribe admin_room) 5, Inbound ''s1'' (GetLiveStats None) 6]
       (step token_is_id (StoreWrite promoted_users) alice_online)) ''admin'' = [] \<and>
   ''s2'' \<in> set (subscribers_of (run token_is_id
       [Disconnect ''s1'', Connect ''s2'' (bearer ''u1'') 7]
       (step token_is_id (StoreWrite promoted_users) alice_online)) ''admin'')"
proof -
  have p: "alice_online = run token_is_id
      [StoreWrite example_users, Initialize, Connect ''s1'' (bearer ''u1'') 1] init_state"
    by (simp add: alice_online_def started_def run_def)
  have l: "Map_get ''s1'' (sockets alice_online) = Some (alice ''s1'')" by code_simp
  have r: "userRole (alice ''s1'') \<noteq> ''admin''" by (simp add: alice_def)
  have u: "userId (alice ''s1'') = ''u1''" by (simp add: alice_def)
  have su: "single_user ''u1'' promoted_users
     = Some \<lparr>user_id = ''u1'', user_name = ''Alice'', user_email = ''alice@example.org'',
             user_role = ''admin''\<rparr>" by code_simp
  have h: "io alice_online" "\<not> Map_has ''s2'' (sockets alice_online)"
    "handshake_token (bearer ''u1'') = Some ''u1''" "token_is_id ''u1'' = Some (Some ''u1'')"
    by code_simp+
  have nd: "Disconnect ''s1'' \<notin> set
       [Inbound ''s1'' (Subscribe admin_room) 5, Inbound ''s1'' (GetLiveStats None) 6]"
    by simp
  have e: "subscribers_of (run token_is_id
       [Inbound ''s1'' (Subscribe admin_room) 5, Inbound ''s1'' (GetLiveStats None) 6]
       (step token_is_id (StoreWrite promoted_users) alice_online)) ''admin'' = []"
    by code_simp
  note T = role_fixed_at_connect_time [where tbl = promoted_users and q = None
        and ?n1.0 = 6 and ?n2.0 = 5 and ?n3.0 = 7
        and acts = "[Inbound ''s1'' (Subscribe admin_room) 5, Inbound ''s1'' (GetLiveStats None) 6]"
        and d = admin_room and j = "''s2''" and hs = "bearer ''u1''" and tok = "''u1''"
        and row = "\<lparr>user_id = ''u1'', user_name = ''Alice'', user_email = ''alice@example.org'',
             user_role = ''admin''\<rparr>", OF p l r refl]
  have w1: "Map_get ''s1'' (sockets (run token_is_id
       [Inbound ''s1'' (Subscribe admin_room) 5, Inbound ''s1'' (GetLiveStats None) 6]
       (step token_is_id (StoreWrite promoted_users) alice_online))) = Some (alice ''s1'')"
    using T nd by blast
  have prem: "io alice_online \<and> \<not> Map_has ''s2'' (sockets alice_online) \<and>
      handshake_token (bearer ''u1'') = Some ''u1'' \<and> ''u1'' \<noteq> [] \<and>
      token_is_id ''u1'' = Some (Some (userId (alice ''s1''))) \<and>
      single_user (userId (alice ''s1'')) promoted_users
        = Some \<lparr>user_id = ''u1'', user_name = ''Alice'', user_email = ''alice@example.org'',
             user_role = ''admin''\<rparr> \<and>
      user_role \<lparr>user_id = ''u1'', user_name = ''Alice'', user_email = ''alice@example.org'',
             user_role = ''admin''\<rparr> = ''admin''"
    using h su u by simp
  have w2: "''s2'' \<in> set (subscribers_of (run token_is_id
       [Disconnect ''s1'', Connect ''s2'' (bearer ''u1'') 7]
       (step token_is_id (StoreWrite promoted_users) alice_online)) ''admin'')"
    using T prem by blast
  show ?thesis using l r su e w1 w2 by (intro conjI)
qed

section \<open>Requests and broadcasts that do nothing\<close>

text \<open>
  Claim C9. The listener of \<^verbatim>\<open>get_live_stats\<close> calls the statistics handler only when the
  socket's cached role is \<^verbatim>\<open>admin\<close>. For any other role the message is dropped: the
  state after the listener, queues of outbound events included, is the state before it,
  so the requester gets neither a reply nor an error event.
\<close>

theorem live_stats_dropped_for_non_admin:
  assumes "userRole socket \<noteq> ''admin''"
  shows "on_get_live_stats now socket q st = st \<and>
         (Map_get i (sockets st) = Some socket \<longrightarrow>
            step verify (Inbound i (GetLiveStats q) now) st = st)"
  using assms by (simp add: on_get_live_stats_def)

theorem live_stats_dropped_for_non_admin_witness:
  "userRole (alice ''s1'') \<noteq> ''admin'' \<and>
   Map_get ''s1'' (sockets alice_online) = Some (alice ''s1'') \<and>
   on_get_live_stats 7 (alice ''s1'') None alice_online = alice_online \<and>
   step token_is_id (Inbound ''s1'' (GetLiveStats None) 7) alice_online = alice_online"
proof -
  have h: "userRole (alice ''s1'') \<noteq> ''admin''" by (simp add: alice_def)
  have l: "Map_get ''s1'' (sockets alice_online) = Some (alice ''s1'')" by code_simp
  show ?thesis
    using h l live_stats_dropped_for_non_admin [OF h, of 7 None alice_online "''s1''" token_is_id]
    by simp
qed

text \<open>
  Claim C10. Each of the five broadcast functions starts with \<^verbatim>\<open>if (!io) return\<close>. While
  the server handle is unset, a call returns the state it was given: nothing is raised
  and no event is emitted.
\<close>

theorem broadcast_without_server:
  assumes "\<not> io st"
  shows "broadcastParkingUpdate t1 l d1 st = st \<and>
         broadcastBookingUpdate t2 u2 b d2 st = st \<and>
         broadcastPaymentUpdate t3 u3 p d3 st = st \<and>
         broadcastNotification t4 u4 n st = st \<and>
         broadcastSystemAnnouncement t5 m ty st = st"
  using assms
  by (simp add: broadcastParkingUpdate_def broadcastBookingUpdate_def
      broadcastPaymentUpdate_def broadcastNotification_def broadcastSystemAnnouncement_def)

theorem broadcast_without_server_witness:
  "\<not> io init_state \<and>
   broadcastParkingUpdate 5 ''42'' [(''available_spaces'', JNum 17)] init_state = init_state \<and>
   broadcastBookingUpdate 5 ''u1'' (JNum 9) [(''status'', JStr ''active'')] init_state = init_state \<and>
   broadcastPaymentUpdate 5 ''u1'' (JNum 3) [] init_state = init_state \<and>
   broadcastNotification 5 ''u1'' [(''title'', JStr ''hello'')] init_state = init_state \<and>
   broadcastSystemAnnouncement 5 (JStr ''maintenance'') None init_state = init_state"
proof -
  have h: "\<not> io init_state" by (simp add: init_state_def)
  show ?thesis
    using h broadcast_without_server [OF h, of 5 "''42''" "[(''available_spaces'', JNum 17)]"
        5 "''u1''" "JNum 9" "[(''status'', JStr ''active'')]" 5 "''u1''" "JNum 3" "[]"
        5 "''u1''" "[(''title'', JStr ''hello'')]" 5 "JStr ''maintenance''" None]
    by simp
qed

end
